theory Spec2Isabelle
  imports Complex_Main "HOL-Library.AList"
begin

section \<open>Python values, errors and containers\<close>

text \<open>
  The module \<^verbatim>\<open>creative.py\<close> builds quantum circuits, hands them to a backend and
  post-processes the returned counts. Python integers are \<^typ>\<open>int\<close>, Python floats are
  idealised as \<^typ>\<open>real\<close> (the floats of the module are quotients of counts, which are
  compared with 0.1 and 0.9 or summed, and the decoded angle of the ladder, which is
  rounded to an integer), strings are
  \<^typ>\<open>string\<close>, and a dict is an association list with distinct keys in insertion
  order: lookup is \<^const>\<open>map_of\<close>, assignment is \<^const>\<open>AList.update\<close>.
  Every exception the code can raise is a value of \<open>error\<close>.
\<close>

datatype error =
  IndexError | KeyError | ZeroDivisionError | ValueError | AttributeError | BackendError

definition bind_err :: "error + 'a \<Rightarrow> ('a \<Rightarrow> error + 'b) \<Rightarrow> error + 'b" where
  "bind_err m f = (case m of Inl e \<Rightarrow> Inl e | Inr v \<Rightarrow> f v)"

text \<open>\<^verbatim>\<open>xs[i]\<close> for a Python list or string; a negative index counts from the end.\<close>

definition py_index :: "'a list \<Rightarrow> int \<Rightarrow> error + 'a" where
  "py_index xs i =
     (if 0 \<le> i then (if i < int (length xs) then Inr (xs ! nat i) else Inl IndexError)
      else (if - i \<le> int (length xs) then Inr (xs ! nat (int (length xs) + i))
            else Inl IndexError))"

text \<open>\<^verbatim>\<open>d[k]\<close> for a dict.\<close>

definition dict_get :: "('k \<times> 'v) list \<Rightarrow> 'k \<Rightarrow> error + 'v" where
  "dict_get d k = (case map_of d k of None \<Rightarrow> Inl KeyError | Some v \<Rightarrow> Inr v)"

text \<open>\<^verbatim>\<open>range(n)\<close>.\<close>

definition py_range :: "int \<Rightarrow> int list" where
  "py_range n = map int [0..<nat n]"

text \<open>\<^verbatim>\<open>chr(c)\<close>: the one-character string of code point \<open>c\<close>, represented by the code
  point itself; outside the Unicode range Python raises ValueError.\<close>

definition py_chr :: "int \<Rightarrow> error + nat" where
  "py_chr c = (if 0 \<le> c \<and> c < 1114112 then Inr (nat c) else Inl ValueError)"

text \<open>Python's \<^verbatim>\<open>round\<close> of a float: to the nearest integer, a tie to the even one.\<close>

definition py_round :: "real \<Rightarrow> int" where
  "py_round v =
     (let f = \<lfloor>v\<rfloor>; r = v - of_int f
      in if r < 1 / 2 then f else if 1 / 2 < r then f + 1
         else if even f then f else f + 1)"

section \<open>Circuits and the store of circuit objects\<close>

text \<open>
  A circuit is the register size and the operations appended so far; the methods
  \<^verbatim>\<open>h, x, s, cx, rx, ry, barrier, measure\<close> of a circuit each append one operation.
  \<^verbatim>\<open>barrier(qr)\<close> and \<^verbatim>\<open>measure(qr, cr)\<close> always take the whole register.
\<close>

datatype gate =
  Gate_h nat | Gate_x nat | Gate_s nat | Gate_cx nat nat
  | Gate_rx real nat | Gate_ry real nat | Barrier | Measure

record circuit =
  nqubits :: nat
  ops :: "gate list"

definition QuantumCircuit :: "nat \<Rightarrow> circuit" where
  "QuantumCircuit n = \<lparr>nqubits = n, ops = []\<rparr>"

definition append_op :: "circuit \<Rightarrow> gate \<Rightarrow> circuit" where
  "append_op c g = c\<lparr>ops := ops c @ [g]\<rparr>"

text \<open>
  The classes \<^verbatim>\<open>ladder\<close> and \<^verbatim>\<open>twobit\<close> keep a reference to a circuit object and
  mutate the object in place, so circuit objects live in a store: addresses below
  \<open>next_addr\<close> are allocated.
\<close>

record heap =
  cells :: "nat \<Rightarrow> circuit"
  next_addr :: nat

definition empty_heap :: heap where
  "empty_heap = \<lparr>cells = (\<lambda>_. QuantumCircuit 0), next_addr = 0\<rparr>"

definition alloc :: "heap \<Rightarrow> circuit \<Rightarrow> nat \<times> heap" where
  "alloc h c = (next_addr h, h\<lparr>cells := (cells h)(next_addr h := c), next_addr := Suc (next_addr h)\<rparr>)"

text \<open>\<^verbatim>\<open>copy.deepcopy(qc)\<close>: a new object with the same contents.\<close>

definition deepcopy :: "heap \<Rightarrow> nat \<Rightarrow> nat \<times> heap" where
  "deepcopy h a = alloc h (cells h a)"

text \<open>A method call \<^verbatim>\<open>qc.g(...)\<close> on the object at address \<open>a\<close>.\<close>

definition emit :: "heap \<Rightarrow> nat \<Rightarrow> gate \<Rightarrow> heap" where
  "emit h a g = h\<lparr>cells := (cells h)(a := append_op (cells h a) g)\<rparr>"

text \<open>
  The backend is external. \<^verbatim>\<open>execute(qc, backend=get_backend(backend), shots=shots)\<close>
  followed by \<^verbatim>\<open>job.result().get_counts()\<close> is a parameter \<open>exec\<close> of the model: it maps
  the circuit and the shot count to the raw counts, or fails.
\<close>

type_synonym counts = "(string \<times> int) list"
type_synonym executor = "circuit \<Rightarrow> int \<Rightarrow> error + counts"

text \<open>
  Both readouts share these lines:
  \<^verbatim>\<open>
  if '1' in stats: p = stats['1']/shots
  else:            p = 0
  \<close>
\<close>

definition fraction_of_ones :: "counts \<Rightarrow> int \<Rightarrow> error + real" where
  "fraction_of_ones stats shots =
     (case map_of stats ''1'' of
        None \<Rightarrow> Inr 0
      | Some c \<Rightarrow> if shots = 0 then Inl ZeroDivisionError
                  else Inr (real_of_int c / real_of_int shots))"

section \<open>class ladder\<close>

record ladder =
  ladder_d :: int
  ladder_qc :: nat

definition ladder_init :: "heap \<Rightarrow> int \<Rightarrow> ladder \<times> heap" where
  "ladder_init h d =
     (case alloc h (QuantumCircuit 1) of (a, h') \<Rightarrow> (\<lparr>ladder_d = d, ladder_qc = a\<rparr>, h'))"

text \<open>\<^verbatim>\<open>self.qc.rx(np.pi*delta/self.d, self.qr[0])\<close>; a zero \<open>d\<close> raises before the
  gate is appended.\<close>

definition ladder_add :: "heap \<Rightarrow> ladder \<Rightarrow> real \<Rightarrow> (error + unit) \<times> heap" where
  "ladder_add h L delta =
     (if ladder_d L = 0 then (Inl ZeroDivisionError, h)
      else (Inr (), emit h (ladder_qc L) (Gate_rx (pi * delta / real_of_int (ladder_d L)) 0)))"

text \<open>\<^verbatim>\<open>int(round(2*np.arcsin(np.sqrt(p))*self.d/np.pi))\<close>. Outside \<open>[0, 1]\<close> numpy yields
  nan, and \<^verbatim>\<open>int\<close> of nan raises ValueError.\<close>

definition ladder_decode :: "int \<Rightarrow> real \<Rightarrow> error + int" where
  "ladder_decode d p =
     (if p < 0 \<or> 1 < p then Inl ValueError
      else Inr (py_round (2 * arcsin (sqrt p) * real_of_int d / pi)))"

text \<open>The first three lines of \<^verbatim>\<open>value\<close>: the circuit is copied, and barrier and
  measurement go to the copy.\<close>

definition ladder_measure :: "heap \<Rightarrow> ladder \<Rightarrow> nat \<times> heap" where
  "ladder_measure h L =
     (case deepcopy h (ladder_qc L) of (temp_qc, h1) \<Rightarrow>
        (temp_qc, emit (emit h1 temp_qc Barrier) temp_qc Measure))"

definition ladder_value :: "executor \<Rightarrow> heap \<Rightarrow> ladder \<Rightarrow> int \<Rightarrow> (error + int) \<times> heap" where
  "ladder_value exec h L shots =
     (case ladder_measure h L of (temp_qc, h3) \<Rightarrow>
        (bind_err (exec (cells h3 temp_qc) shots) (\<lambda>stats.
         bind_err (fraction_of_ones stats shots) (\<lambda>p.
         ladder_decode (ladder_d L) p)), h3))"

section \<open>class twobit\<close>

record twobit =
  twobit_qc :: nat

text \<open>The argument of \<^verbatim>\<open>prepare\<close> is a dict from a basis name to a boolean or None.\<close>

definition truthy :: "bool option option \<Rightarrow> bool" where
  "truthy v = (v = Some (Some True))"

definition twobit_prepare :: "heap \<Rightarrow> twobit \<Rightarrow> (string \<times> bool option) list \<Rightarrow> twobit \<times> heap" where
  "twobit_prepare h T state =
     (case alloc h (QuantumCircuit 1) of (a, h1) \<Rightarrow>
        (T\<lparr>twobit_qc := a\<rparr>,
         if map_of state ''Y'' \<noteq> None then emit (emit h1 a (Gate_h 0)) a (Gate_s 0)
         else if map_of state ''X'' \<noteq> None then
           emit (if truthy (map_of state ''X'') then emit h1 a (Gate_x 0) else h1) a (Gate_h 0)
         else if map_of state ''Z'' \<noteq> None then
           (if truthy (map_of state ''Z'') then emit h1 a (Gate_x 0) else h1)
         else h1))"

definition twobit_init :: "heap \<Rightarrow> twobit \<times> heap" where
  "twobit_init h =
     (case alloc h (QuantumCircuit 1) of (a, h1) \<Rightarrow>
        twobit_prepare h1 \<lparr>twobit_qc = a\<rparr> [(''Y'', None)])"

text \<open>
  The mitigation step of \<^verbatim>\<open>twobit.value\<close>:
  \<^verbatim>\<open>
  if p<0.1:   p = 0
  elif p>0.9: p = 1
  \<close>
\<close>

definition mitigate_clamp :: "real \<Rightarrow> real" where
  "mitigate_clamp p = (if p < 1 / 10 then 0 else if 9 / 10 < p then 1 else p)"

text \<open>The first lines of \<^verbatim>\<open>twobit.value\<close>: the gates of the measurement are appended
  to the object's own circuit.\<close>

definition twobit_measure :: "heap \<Rightarrow> twobit \<Rightarrow> string \<Rightarrow> heap" where
  "twobit_measure h T basis =
     (let a = twobit_qc T;
          h1 = (if basis = ''X'' then emit h a (Gate_h 0) else h)
      in emit (emit h1 a Barrier) a Measure)"

text \<open>
  \<open>r\<close> is the value \<^verbatim>\<open>random.random()\<close> returns, a float in \<open>[0, 1)\<close>. After the draw
  \<^verbatim>\<open>prepare\<close> replaces the circuit.
\<close>

definition twobit_value ::
  "executor \<Rightarrow> real \<Rightarrow> heap \<Rightarrow> twobit \<Rightarrow> string \<Rightarrow> int \<Rightarrow> bool \<Rightarrow> (error + bool) \<times> twobit \<times> heap" where
  "twobit_value exec r h T basis shots mitigate =
     (let h3 = twobit_measure h T basis
      in case bind_err (exec (cells h3 (twobit_qc T)) shots) (\<lambda>stats. fraction_of_ones stats shots) of
           Inl e \<Rightarrow> (Inl e, T, h3)
         | Inr p \<Rightarrow>
             let p' = (if mitigate then mitigate_clamp p else p);
                 measured_value = (r < p')
             in case twobit_prepare h3 T [(basis, Some measured_value)] of
                  (T', h4) \<Rightarrow> (Inr measured_value, T', h4))"

section \<open>bitstring_superposer\<close>

text \<open>The argument is a list of strings or a list of lists of strings.\<close>

datatype strings_arg = Strings "string list" | StringLists "string list list"

text \<open>
  \<^verbatim>\<open>
  if type(strings[0])==str: strings_list = [strings]
  else:                     strings_list = strings
  \<close>
  The test reads \<^verbatim>\<open>strings[0]\<close>, which raises on an empty list.
\<close>

definition strings_list_of :: "strings_arg \<Rightarrow> error + string list list" where
  "strings_list_of arg =
     (case arg of
        Strings ss \<Rightarrow> if ss = [] then Inl IndexError else Inr [ss]
      | StringLists sss \<Rightarrow> if sss = [] then Inl IndexError else Inr sss)"

text \<open>
  \<^verbatim>\<open>
  num = 0
  for string in strings:
      num = max(len(string),num)
  for string in strings:
      string = '0'*(num-len(string)) + string
  \<close>
  The second loop assigns to its own loop variable: the list \<^verbatim>\<open>strings\<close> keeps the
  strings it had, and the rest of the function reads \<^verbatim>\<open>strings\<close>. So the model has no
  counterpart of the second loop.
\<close>

definition longest :: "string list \<Rightarrow> nat" where
  "longest strings = foldl (\<lambda>num string. max (length string) num) 0 strings"

text \<open>What the comment above those lines asks for (``pad any that are shorter''), as a
  function of its own, for comparison with the code.\<close>

definition padded :: "string list \<Rightarrow> string list" where
  "padded strings =
     map (\<lambda>string. replicate (longest strings - length string) CHR ''0'' @ string) strings"

text \<open>
  \<^verbatim>\<open>
  for bit in range(num):
      if strings[0][bit]==strings[1][bit]:
          if strings[0][bit]=='1':
              qc.x(qr[bit])
      if strings[0][bit]!=strings[1][bit]:
          diff.append(bit)
  \<close>
\<close>

text \<open>The loop variable \<^verbatim>\<open>bit\<close> is \<open>bt\<close> below.\<close>

fun compare_bits :: "string list \<Rightarrow> nat list \<Rightarrow> circuit \<Rightarrow> nat list \<Rightarrow> error + circuit \<times> nat list" where
  "compare_bits strings [] qc diff = Inr (qc, diff)"
| "compare_bits strings (bt # bits) qc diff =
     bind_err (py_index strings 0) (\<lambda>s0.
     bind_err (py_index s0 (int bt)) (\<lambda>c0.
     bind_err (py_index strings 1) (\<lambda>s1.
     bind_err (py_index s1 (int bt)) (\<lambda>c1.
       compare_bits strings bits
         (if c0 = c1 \<and> c0 = CHR ''1'' then append_op qc (Gate_x bt) else qc)
         (if c0 \<noteq> c1 then diff @ [bt] else diff)))))"

text \<open>
  \<^verbatim>\<open>
  for bit in diff:
      if strings[0][bit]=='1':
          qc.x(qr[bit])
  \<close>
\<close>

fun flip_ones :: "string list \<Rightarrow> nat list \<Rightarrow> circuit \<Rightarrow> error + circuit" where
  "flip_ones strings [] qc = Inr qc"
| "flip_ones strings (bt # bits) qc =
     bind_err (py_index strings 0) (\<lambda>s0.
     bind_err (py_index s0 (int bt)) (\<lambda>c0.
       flip_ones strings bits (if c0 = CHR ''1'' then append_op qc (Gate_x bt) else qc)))"

text \<open>The body of the loop over \<^verbatim>\<open>strings_list\<close>: the circuit for one list of strings.\<close>

definition superposer_circuit :: "string list \<Rightarrow> error + circuit" where
  "superposer_circuit strings =
     (let num = longest strings;
          qc = QuantumCircuit num
      in bind_err
           (if length strings = 2 ^ num
            then Inr (foldl (\<lambda>qc n. append_op qc (Gate_h n)) qc [0..<num])
            else bind_err (compare_bits strings [0..<num] qc []) (\<lambda>(qc, diff).
                   if diff \<noteq> [] then
                     flip_ones strings diff
                       (foldl (\<lambda>qc bt. append_op qc (Gate_cx (hd diff) bt))
                          (append_op qc (Gate_h (hd diff))) (tl diff))
                   else Inr qc))
           (\<lambda>qc. Inr (append_op (append_op qc Barrier) Measure)))"

text \<open>A loop that stops at the first exception.\<close>

fun map_err :: "('a \<Rightarrow> error + 'b) \<Rightarrow> 'a list \<Rightarrow> error + 'b list" where
  "map_err f [] = Inr []"
| "map_err f (x # xs) = bind_err (f x) (\<lambda>y. bind_err (map_err f xs) (\<lambda>ys. Inr (y # ys)))"

text \<open>
  \<^verbatim>\<open>
  stats = {}
  for string in stats_raw:
      stats[string[::-1]] = stats_raw[string]/shots
  \<close>
\<close>

fun reverse_keys :: "counts \<Rightarrow> int \<Rightarrow> (string \<times> real) list \<Rightarrow> error + (string \<times> real) list" where
  "reverse_keys [] shots stats = Inr stats"
| "reverse_keys ((string, c) # stats_raw) shots stats =
     (if shots = 0 then Inl ZeroDivisionError
      else reverse_keys stats_raw shots
             (AList.update (rev string) (real_of_int c / real_of_int shots) stats))"

text \<open>
  The batch goes to the backend in one call; \<^verbatim>\<open>job.result().get_counts(batch[j])\<close> is the
  backend's answer for the \<open>j\<close>-th circuit of the batch. The function returns a dict
  when the list of results has one element, and the list otherwise.
\<close>

type_synonym batch_executor = "circuit list \<Rightarrow> int \<Rightarrow> error + (nat \<Rightarrow> counts)"

datatype superposer_result =
  OneDict "(string \<times> real) list" | DictList "(string \<times> real) list list"

definition bitstring_superposer :: "batch_executor \<Rightarrow> strings_arg \<Rightarrow> int \<Rightarrow> error + superposer_result" where
  "bitstring_superposer exec strings shots =
     bind_err (strings_list_of strings) (\<lambda>strings_list.
     bind_err (map_err superposer_circuit strings_list) (\<lambda>batch.
     bind_err (exec batch shots) (\<lambda>job.
     bind_err (map_err (\<lambda>j. reverse_keys (job j) shots []) [0..<length strings_list]) (\<lambda>stats_list.
       Inr (if length stats_list = 1 then OneDict (stats_list ! 0) else DictList stats_list)))))"

section \<open>class layout\<close>

text \<open>
  The constructor's argument is a device name, a list (of integers), or anything else.
  The nodes of a layout are the elements, keyed by their index, and the couplers, keyed
  by a one-character string.
\<close>

datatype device = DeviceName string | DeviceGrid "int list" | DeviceOther

datatype node = Element int | Coupler nat

datatype event = Print string | GetBackend string

record backend_configuration =
  n_qubits :: int
  coupling_map :: "int list list"

record layout =
  num :: int
  pairs :: "(nat \<times> int list) list"
  pos :: "(node \<times> real \<times> real) list"

text \<open>
  \<^verbatim>\<open>
  self.pairs[chr(char)] = pair
  char += 1
  \<close>
  for each pair of a list, in order.
\<close>

fun add_pairs :: "int \<Rightarrow> int list list \<Rightarrow> (nat \<times> int list) list \<Rightarrow> error + int \<times> (nat \<times> int list) list" where
  "add_pairs char [] prs = Inr (char, prs)"
| "add_pairs char (pair # rest) prs =
     bind_err (py_chr char) (\<lambda>label. add_pairs (char + 1) rest (AList.update label pair prs))"

text \<open>The pairs of the two nested loops of the grid branch, in the order the loops make
  them: \<^verbatim>\<open>n = x + y*Ly\<close>, then \<^verbatim>\<open>m = n+1\<close> in the first and \<^verbatim>\<open>m = n+Ly\<close> in the second.\<close>

definition grid_pairs_x :: "int \<Rightarrow> int \<Rightarrow> int list list" where
  "grid_pairs_x Lx Ly =
     concat (map (\<lambda>x. map (\<lambda>y. [x + y * Ly, x + y * Ly + 1]) (py_range Ly)) (py_range (Lx - 1)))"

definition grid_pairs_y :: "int \<Rightarrow> int \<Rightarrow> int list list" where
  "grid_pairs_y Lx Ly =
     concat (map (\<lambda>x. map (\<lambda>y. [x + y * Ly, x + y * Ly + Ly]) (py_range (Ly - 1))) (py_range Lx))"

text \<open>\<^verbatim>\<open>self.pos[n] = [x,y]\<close> with \<^verbatim>\<open>n = x + y*Ly\<close>, for \<open>x\<close> in \<^verbatim>\<open>range(Lx)\<close> and \<open>y\<close> in
  \<^verbatim>\<open>range(Ly)\<close>.\<close>

definition grid_pos :: "int \<Rightarrow> int \<Rightarrow> (node \<times> real \<times> real) list" where
  "grid_pos Lx Ly =
     foldl (\<lambda>ps (x, y). AList.update (Element (x + y * Ly)) (real_of_int x, real_of_int y) ps) []
       (concat (map (\<lambda>x. map (\<lambda>y. (x, y)) (py_range Ly)) (py_range Lx)))"

definition pos_ibmqx2 :: "(node \<times> real \<times> real) list" where
  "pos_ibmqx2 =
     [(Element 0, (1, 1)), (Element 1, (1, 0)), (Element 2, (1 / 2, 1 / 2)),
      (Element 3, (0, 0)), (Element 4, (0, 1))]"

definition pos_ibmqx5 :: "(node \<times> real \<times> real) list" where
  "pos_ibmqx5 =
     [(Element 0, (0, 0)), (Element 1, (0, 1)), (Element 2, (1, 1)), (Element 3, (2, 1)),
      (Element 4, (3, 1)), (Element 5, (4, 1)), (Element 6, (5, 1)), (Element 7, (6, 1)),
      (Element 8, (7, 1)), (Element 9, (7, 0)), (Element 10, (6, 0)), (Element 11, (5, 0)),
      (Element 12, (4, 0)), (Element 13, (3, 0)), (Element 14, (2, 0)), (Element 15, (1, 0))]"

text \<open>
  The last loop of the constructor:
  \<^verbatim>\<open>
  for pair in self.pairs:
      self.pos[pair] = [(self.pos[self.pairs[pair][0]][j] + self.pos[self.pairs[pair][1]][j])/2
                        for j in range(2)]
  \<close>
\<close>

fun coupler_pos :: "(nat \<times> int list) list \<Rightarrow> (node \<times> real \<times> real) list \<Rightarrow> error + (node \<times> real \<times> real) list" where
  "coupler_pos [] ps = Inr ps"
| "coupler_pos ((label, pair) # rest) ps =
     bind_err (py_index pair 0) (\<lambda>a.
     bind_err (dict_get ps (Element a)) (\<lambda>pa.
     bind_err (py_index pair 1) (\<lambda>b.
     bind_err (dict_get ps (Element b)) (\<lambda>pb.
       coupler_pos rest
         (AList.update (Coupler label) ((fst pa + fst pb) / 2, (snd pa + snd pb) / 2) ps)))))"

definition finish_layout :: "int \<Rightarrow> (nat \<times> int list) list \<Rightarrow> (node \<times> real \<times> real) list \<Rightarrow> error + layout" where
  "finish_layout n prs ps =
     bind_err (coupler_pos prs ps) (\<lambda>ps'. Inr \<lparr>num = n, pairs = prs, pos = ps'\<rparr>)"

definition not_recognized :: string where
  "not_recognized =
     ''Error: Device not recognized.'' @ [CHR 0x0A] @
     ''Make sure it is a list of two integers (to specify a grid) or one of the supported IBM devices (''
     @ [CHR 0x27] @ ''ibmqx2'' @ [CHR 0x27] @ '', '' @ [CHR 0x27] @ ''ibmqx4'' @ [CHR 0x27]
     @ '' and '' @ [CHR 0x27] @ ''ibmqx5'' @ [CHR 0x27] @ '').''"

text \<open>
  \<^verbatim>\<open>layout.__init__\<close>. \<open>get_backend\<close> is the external lookup of a device, a parameter. The
  result is the trace of prints and backend calls, and the object or the exception.
  In the last branch the constructor prints and goes on to the last loop, where
  \<^verbatim>\<open>self.pairs\<close> was never assigned: the read raises AttributeError.
\<close>

definition layout_init ::
  "(string \<Rightarrow> error + backend_configuration) \<Rightarrow> device \<Rightarrow> event list \<times> (error + layout)" where
  "layout_init get_backend device =
     (case device of
        DeviceGrid g \<Rightarrow>
          ([], bind_err (py_index g 0) (\<lambda>Lx.
               bind_err (py_index g 1) (\<lambda>Ly.
               bind_err (add_pairs 65 (grid_pairs_x Lx Ly) []) (\<lambda>(char, prs).
               bind_err (add_pairs char (grid_pairs_y Lx Ly) prs) (\<lambda>(char', prs').
               finish_layout (Lx * Ly) prs' (grid_pos Lx Ly))))))
      | DeviceName name \<Rightarrow>
          if name \<in> set [''ibmqx2'', ''ibmqx4'', ''ibmqx5''] then
            ([GetBackend name],
             bind_err (get_backend name) (\<lambda>backend.
             bind_err (add_pairs 65 (coupling_map backend) []) (\<lambda>(char, prs).
             finish_layout (n_qubits backend) prs
               (if name \<in> set [''ibmqx2'', ''ibmqx4''] then pos_ibmqx2 else pos_ibmqx5))))
          else ([Print not_recognized], Inl AttributeError)
      | DeviceOther \<Rightarrow> ([Print not_recognized], Inl AttributeError))"

text \<open>
  \<^verbatim>\<open>calculate_probs\<close>, first part:
  \<^verbatim>\<open>
  Z = 0
  for string in raw_stats: Z += raw_stats[string]
  stats = {}
  for string in raw_stats: stats[string] = raw_stats[string]/Z
  \<close>
\<close>

definition normalise :: "counts \<Rightarrow> error + (string \<times> real) list" where
  "normalise raw_stats =
     (let Z = foldl (\<lambda>Z (string, c). Z + c) 0 raw_stats
      in map_err (\<lambda>(string, c).
           if Z = 0 then Inl ZeroDivisionError
           else Inr (string, real_of_int c / real_of_int Z)) raw_stats)"

text \<open>
  \<^verbatim>\<open>
  for n in range(self.num):
      if string[-n-1]=='1':
          probs[n] += stats[string]
  \<close>
\<close>

fun add_elements :: "string \<Rightarrow> real \<Rightarrow> int list \<Rightarrow> (node \<times> real) list \<Rightarrow> error + (node \<times> real) list" where
  "add_elements string p [] probs = Inr probs"
| "add_elements string p (n # ns) probs =
     bind_err (py_index string (- n - 1)) (\<lambda>c.
       if c = CHR ''1'' then
         bind_err (dict_get probs (Element n)) (\<lambda>v.
           add_elements string p ns (AList.update (Element n) (v + p) probs))
       else add_elements string p ns probs)"

text \<open>
  \<^verbatim>\<open>
  for pair in self.pairs:
      if string[-self.pairs[pair][0]-1]!=string[-self.pairs[pair][1]-1]:
          probs[pair] += stats[string]
  \<close>
\<close>

fun add_couplers :: "string \<Rightarrow> real \<Rightarrow> (nat \<times> int list) list \<Rightarrow> (node \<times> real) list \<Rightarrow> error + (node \<times> real) list" where
  "add_couplers string p [] probs = Inr probs"
| "add_couplers string p ((label, pair) # rest) probs =
     bind_err (py_index pair 0) (\<lambda>a.
     bind_err (py_index string (- a - 1)) (\<lambda>ca.
     bind_err (py_index pair 1) (\<lambda>b.
     bind_err (py_index string (- b - 1)) (\<lambda>cb.
       if ca \<noteq> cb then
         bind_err (dict_get probs (Coupler label)) (\<lambda>v.
           add_couplers string p rest (AList.update (Coupler label) (v + p) probs))
       else add_couplers string p rest probs))))"

text \<open>The loop \<^verbatim>\<open>for string in stats\<close>.\<close>

fun add_strings :: "layout \<Rightarrow> (string \<times> real) list \<Rightarrow> (node \<times> real) list \<Rightarrow> error + (node \<times> real) list" where
  "add_strings L [] probs = Inr probs"
| "add_strings L ((string, p) # stats) probs =
     bind_err (add_elements string p (py_range (num L)) probs) (\<lambda>probs1.
     bind_err (add_couplers string p (pairs L) probs1) (\<lambda>probs2.
       add_strings L stats probs2))"

text \<open>\<^verbatim>\<open>for n in self.pos: probs[n] = 0\<close>.\<close>

definition zero_probs :: "layout \<Rightarrow> (node \<times> real) list" where
  "zero_probs L = foldl (\<lambda>probs (n, xy). AList.update n 0 probs) [] (pos L)"

definition calculate_probs :: "layout \<Rightarrow> counts \<Rightarrow> error + (node \<times> real) list" where
  "calculate_probs L raw_stats =
     bind_err (normalise raw_stats) (\<lambda>stats. add_strings L stats (zero_probs L))"

section \<open>The noiseless backend\<close>

text \<open>
  Modelled from the spec: the Execution Backend, which is external to the repository
  (the module calls \<^verbatim>\<open>execute\<close> of the quantum SDK). The spec describes the operations
  by what they do to a register of two-level elements that starts in the all-zero state:
  \<^verbatim>\<open>x\<close> inverts an element, \<^verbatim>\<open>h\<close> puts an element into an equal superposition of 0 and 1,
  \<^verbatim>\<open>cx\<close> is the controlled operation that inverts the target where the control reads 1,
  \<^verbatim>\<open>rx\<close> is the rotation by an angle whose outcome "1" has probability
  \<open>sin\<^sup>2(\<theta>/2)\<close>, and a noiseless backend returns each outcome with the probability the
  final state gives it. That is the ideal circuit model: a state is the amplitude of
  every register content, each gate is its textbook matrix, and the probability of an
  outcome is the squared modulus of its amplitude. Barrier and the final measurement
  leave the amplitudes as they are. In a raw key of the counts the last character is
  element 0 (``reversed indexing'' in the spec).
\<close>

text \<open>Modelled from the spec: the state of the register inside the external backend, as
  the amplitude of each register content (element \<open>i\<close> is position \<open>i\<close> of the list).\<close>

type_synonym qstate = "bool list \<Rightarrow> complex"

definition ket :: "bool list \<Rightarrow> qstate" where
  "ket u = (\<lambda>s. if s = u then 1 else 0)"

definition flip_at :: "nat \<Rightarrow> bool list \<Rightarrow> bool list" where
  "flip_at i s = (if i < length s then s[i := \<not> s ! i] else s)"

text \<open>Modelled from the spec: what the external backend does for one operation of a
  circuit, without noise.\<close>

fun apply_gate :: "gate \<Rightarrow> qstate \<Rightarrow> qstate" where
  "apply_gate (Gate_x i) \<psi> = (\<lambda>s. \<psi> (flip_at i s))"
| "apply_gate (Gate_cx c t) \<psi> = (\<lambda>s. if c < length s \<and> s ! c then \<psi> (flip_at t s) else \<psi> s)"
| "apply_gate (Gate_h i) \<psi> =
     (\<lambda>s. if i < length s
          then (\<psi> (s[i := False]) + (if s ! i then - 1 else 1) * \<psi> (s[i := True]))
                 / complex_of_real (sqrt 2)
          else \<psi> s)"
| "apply_gate (Gate_s i) \<psi> = (\<lambda>s. if i < length s \<and> s ! i then \<i> * \<psi> s else \<psi> s)"
| "apply_gate (Gate_rx \<theta> i) \<psi> =
     (\<lambda>s. if i < length s
          then complex_of_real (cos (\<theta> / 2)) * \<psi> s
                 - \<i> * complex_of_real (sin (\<theta> / 2)) * \<psi> (flip_at i s)
          else \<psi> s)"
| "apply_gate (Gate_ry \<theta> i) \<psi> =
     (\<lambda>s. if i < length s
          then complex_of_real (cos (\<theta> / 2)) * \<psi> s
                 + (if s ! i then 1 else - 1) * complex_of_real (sin (\<theta> / 2)) * \<psi> (flip_at i s)
          else \<psi> s)"
| "apply_gate Barrier \<psi> = \<psi>"
| "apply_gate Measure \<psi> = \<psi>"

definition run_gates :: "gate list \<Rightarrow> qstate \<Rightarrow> qstate" where
  "run_gates gs \<psi> = foldl (\<lambda>\<psi> g. apply_gate g \<psi>) \<psi> gs"

definition final_state :: "circuit \<Rightarrow> qstate" where
  "final_state qc = run_gates (ops qc) (ket (replicate (nqubits qc) False))"

text \<open>Modelled from the spec: the outcome distribution of the external backend without
  noise. The key of a register content lists the elements from the last to the first.\<close>

definition register_of_key :: "string \<Rightarrow> bool list" where
  "register_of_key k = map (\<lambda>c. c = CHR ''1'') (rev k)"

definition bitstring :: "string \<Rightarrow> bool" where
  "bitstring k = list_all (\<lambda>c. c = CHR ''0'' \<or> c = CHR ''1'') k"

definition noiseless_probability :: "circuit \<Rightarrow> string \<Rightarrow> real" where
  "noiseless_probability qc k =
     (if length k = nqubits qc \<and> bitstring k
      then (cmod (final_state qc (register_of_key k)))\<^sup>2 else 0)"

text \<open>Modelled from the spec: a run of the external backend whose fraction of "1" outcomes
  is the noiseless probability of "1".\<close>

definition noiseless_readout :: "executor \<Rightarrow> int \<Rightarrow> circuit \<Rightarrow> bool" where
  "noiseless_readout exec shots qc \<longleftrightarrow>
     (\<exists>stats. exec qc shots = Inr stats
        \<and> fraction_of_ones stats shots = Inr (noiseless_probability qc ''1''))"

section \<open>Auxiliary notions of the proofs\<close>

text \<open>The value a dict of numbers holds at a key (0 for a missing key), a circuit with
  further operations, the two-outcome superposition, the action of \<^verbatim>\<open>x\<close> and \<^verbatim>\<open>cx\<close> on
  register contents, and the register content a bit-string names.\<close>

definition with_ops :: "circuit \<Rightarrow> gate list \<Rightarrow> circuit" where
  "with_ops qc gs = qc\<lparr>ops := ops qc @ gs\<rparr>"

definition sup2 :: "bool list \<Rightarrow> bool list \<Rightarrow> qstate" where
  "sup2 u v = (\<lambda>s. ((if s = u then 1 else 0) + (if s = v then 1 else 0)) / complex_of_real (sqrt 2))"

fun classical :: "gate \<Rightarrow> bool list \<Rightarrow> bool list" where
  "classical (Gate_x i) s = flip_at i s"
| "classical (Gate_cx c t) s = (if c < length s \<and> s ! c then flip_at t s else s)"
| "classical g s = s"

fun is_classical :: "gate \<Rightarrow> bool" where
  "is_classical (Gate_x i) = True"
| "is_classical (Gate_cx c t) = (c \<noteq> t)"
| "is_classical Barrier = True"
| "is_classical Measure = True"
| "is_classical g = False"

definition bits_of :: "string \<Rightarrow> bool list" where
  "bits_of k = map (\<lambda>c. c = CHR ''1'') k"

definition lookup0 :: "('k \<times> real) list \<Rightarrow> 'k \<Rightarrow> real" where
  "lookup0 d k = (case map_of d k of None \<Rightarrow> 0 | Some v \<Rightarrow> v)"

text \<open>The state of a one-element register after rotations about the x axis by a total
  angle \<open>\<Theta>\<close>.\<close>

definition rx_state :: "real \<Rightarrow> qstate" where
  "rx_state \<Theta> = (\<lambda>s. if s = [False] then complex_of_real (cos (\<Theta> / 2))
                      else if s = [True] then - \<i> * complex_of_real (sin (\<Theta> / 2)) else 0)"

section \<open>Properties\<close>

subsection \<open>Basic facts\<close>

lemma bind_err_Inr: "bind_err m f = Inr y \<longleftrightarrow> (\<exists>x. m = Inr x \<and> f x = Inr y)"
  by (cases m) (simp_all add: bind_err_def)

lemma bind_err_Inr_simp [simp]: "bind_err (Inr x) f = f x"
  by (simp add: bind_err_def)

lemma py_index_nat: "py_index xs (int i) = (if i < length xs then Inr (xs ! i) else Inl IndexError)"
  by (simp add: py_index_def)

lemma py_index_0: "py_index (x # xs) 0 = Inr x"
  by (simp add: py_index_def)

lemma py_index_1: "py_index (x # y # xs) 1 = Inr y"
  by (simp add: py_index_def)

lemma dict_get_Inr: "dict_get d k = Inr v \<longleftrightarrow> map_of d k = Some v"
  by (simp add: dict_get_def split: option.splits)

lemma map_err_Inr:
  "map_err f xs = Inr ys \<Longrightarrow> length ys = length xs \<and> (\<forall>j<length xs. f (xs ! j) = Inr (ys ! j))"
proof (induction xs arbitrary: ys)
  case Nil
  then show ?case by simp
next
  case (Cons x xs)
  from Cons.prems obtain y ys' where y: "f x = Inr y" and r: "map_err f xs = Inr ys'"
    and ys: "ys = y # ys'"
    by (auto simp: bind_err_Inr)
  from Cons.IH[OF r] y ys show ?case by (auto simp: nth_Cons split: nat.splits)
qed

lemma map_err_total:
  "\<forall>x \<in> set xs. \<exists>y. f x = Inr y \<Longrightarrow> \<exists>ys. map_err f xs = Inr ys"
proof (induction xs)
  case Nil
  then show ?case by simp
next
  case (Cons x xs)
  then obtain y ys where "f x = Inr y" "map_err f xs = Inr ys" by auto
  then show ?case by simp
qed

lemma distinct_py_range: "distinct (py_range n)"
  by (simp add: py_range_def distinct_map)

lemma with_ops_nil [simp]: "with_ops qc [] = qc"
  by (simp add: with_ops_def)

lemma append_op_with_ops: "with_ops (append_op qc g) gs = with_ops qc (g # gs)"
  by (simp add: with_ops_def append_op_def)

lemma py_index_from_end:
  "0 \<le> i \<Longrightarrow> i < int (length xs) \<Longrightarrow> \<exists>c. py_index xs (- i - 1) = Inr c"
  by (auto simp: py_index_def)

lemma key_in_dict: "k \<in> fst ` set d \<Longrightarrow> \<exists>v. dict_get d k = Inr v"
  by (cases "map_of d k") (auto simp: dict_get_def map_of_eq_None_iff)

lemma py_range_set: "i \<in> set (py_range n) \<longleftrightarrow> 0 \<le> i \<and> i < n"
  by (auto simp: py_range_def intro: image_eqI[where x = "nat i"])

lemma update_values: "snd ` set (AList.update k v al) \<subseteq> insert v (snd ` set al)"
  by (induction al) auto

subsection \<open>twobit: mitigation\<close>

text \<open>
  C7. The mitigation transform (to 0 below 0.1, to 1 above 0.9, unchanged in between) is
  idempotent: applying it twice equals applying it once, for every \<open>p\<close>, in particular for
  every \<open>p\<close> in \<open>[0, 1]\<close>.
\<close>

theorem mitigate_clamp_idempotent: "mitigate_clamp (mitigate_clamp p) = mitigate_clamp p"
  by (simp add: mitigate_clamp_def)

text \<open>
  C10. With \<^verbatim>\<open>mitigate=True\<close>, when the observed fraction \<open>p\<close> of "1" outcomes is below 0.1
  \<^verbatim>\<open>twobit.value\<close> returns False, and when it is above 0.9 it returns True, whatever the random
  draw \<open>r\<close> in \<open>[0, 1)\<close> is; the object is left as \<^verbatim>\<open>prepare({basis: value})\<close> leaves it, which
  for basis X is the circuit \<open>[x,] h\<close> and for basis Z the circuit \<open>[x]\<close>, with the \<open>x\<close>
  exactly when the value is True.
\<close>

theorem twobit_value_mitigate_deterministic:
  assumes "0 \<le> r" "r < 1"
    and "exec (cells (twobit_measure h T basis) (twobit_qc T)) shots = Inr stats"
    and "fraction_of_ones stats shots = Inr p"
    and "p < 1 / 10 \<or> 9 / 10 < p"
  shows "\<exists>T' h'. twobit_value exec r h T basis shots True = (Inr (9 / 10 < p), T', h')
           \<and> (T', h') = twobit_prepare (twobit_measure h T basis) T [(basis, Some (9 / 10 < p))]
           \<and> (basis = ''X'' \<longrightarrow>
                ops (cells h' (twobit_qc T')) = (if 9 / 10 < p then [Gate_x 0, Gate_h 0] else [Gate_h 0]))
           \<and> (basis = ''Z'' \<longrightarrow>
                ops (cells h' (twobit_qc T')) = (if 9 / 10 < p then [Gate_x 0] else []))"
proof -
  have draw: "(r < mitigate_clamp p) = (9 / 10 < p)"
    using assms(1,2,5) by (auto simp: mitigate_clamp_def)
  obtain T' h' where prep: "twobit_prepare (twobit_measure h T basis) T [(basis, Some (9 / 10 < p))] = (T', h')"
    by (cases "twobit_prepare (twobit_measure h T basis) T [(basis, Some (9 / 10 < p))]")
  have val: "twobit_value exec r h T basis shots True = (Inr (9 / 10 < p), T', h')"
    using assms(3,4) draw prep by (simp add: twobit_value_def bind_err_def Let_def)
  have x: "basis = ''X'' \<Longrightarrow>
      ops (cells h' (twobit_qc T')) = (if 9 / 10 < p then [Gate_x 0, Gate_h 0] else [Gate_h 0])"
    using prep
    by (auto simp: twobit_prepare_def alloc_def emit_def append_op_def QuantumCircuit_def truthy_def)
  have z: "basis = ''Z'' \<Longrightarrow>
      ops (cells h' (twobit_qc T')) = (if 9 / 10 < p then [Gate_x 0] else [])"
    using prep
    by (auto simp: twobit_prepare_def alloc_def emit_def append_op_def QuantumCircuit_def truthy_def)
  show ?thesis using val prep x z by auto
qed

text \<open>The theorem at 24 and at 1000 ones in 1024 shots, with the draw 1/2.\<close>

theorem twobit_value_mitigate_deterministic_witness:
  "fst (twobit_value (\<lambda>qc shots. Inr [(''0'', 1000), (''1'', 24)]) (1 / 2)
          (snd (twobit_init empty_heap)) (fst (twobit_init empty_heap)) ''Z'' 1024 True) = Inr False
   \<and> fst (twobit_value (\<lambda>qc shots. Inr [(''0'', 24), (''1'', 1000)]) (1 / 2)
          (snd (twobit_init empty_heap)) (fst (twobit_init empty_heap)) ''X'' 1024 True) = Inr True"
proof -
  have f1: "fraction_of_ones [(''0'', 1000), (''1'', 24)] 1024 = Inr (24 / 1024)"
    by (simp add: fraction_of_ones_def)
  have f2: "fraction_of_ones [(''0'', 24), (''1'', 1000)] 1024 = Inr (1000 / 1024)"
    by (simp add: fraction_of_ones_def)
  have r: "(0::real) \<le> 1 / 2" "(1 / 2 :: real) < 1" by simp_all
  have p1: "(24 / 1024 :: real) < 1 / 10 \<or> 9 / 10 < (24 / 1024 :: real)" by simp
  have p2: "(1000 / 1024 :: real) < 1 / 10 \<or> 9 / 10 < (1000 / 1024 :: real)" by simp
  from twobit_value_mitigate_deterministic[OF r refl f1 p1,
      of "snd (twobit_init empty_heap)" "fst (twobit_init empty_heap)" "''Z''"]
    twobit_value_mitigate_deterministic[OF r refl f2 p2,
      of "snd (twobit_init empty_heap)" "fst (twobit_init empty_heap)" "''X''"]
  show ?thesis by auto
qed

subsection \<open>ladder\<close>

text \<open>
  C9. \<^verbatim>\<open>ladder.value\<close> leaves the state of the ladder as it was: the object keeps \<open>d\<close> and its
  reference, every circuit object that existed before the call has the operations it had
  (the call writes to its own copy only), so a later \<^verbatim>\<open>value\<close> gives the backend the same
  circuit and a later \<^verbatim>\<open>add\<close> produces the same circuit as without the call.
\<close>

theorem ladder_value_readonly:
  assumes "ladder_qc L < next_addr h"
  shows "(\<forall>a<next_addr h. cells (snd (ladder_value exec h L shots)) a = cells h a)
       \<and> fst (ladder_value exec2 (snd (ladder_value exec h L shots)) L shots2)
           = fst (ladder_value exec2 h L shots2)
       \<and> cells (snd (ladder_add (snd (ladder_value exec h L shots)) L delta)) (ladder_qc L)
           = cells (snd (ladder_add h L delta)) (ladder_qc L)"
  using assms
  by (auto simp: ladder_value_def ladder_measure_def deepcopy_def alloc_def emit_def ladder_add_def)

text \<open>The theorem for a new ladder with \<open>d = 3\<close>.\<close>

theorem ladder_value_readonly_witness:
  "ladder_qc (fst (ladder_init empty_heap 3)) < next_addr (snd (ladder_init empty_heap 3))
   \<and> cells (snd (ladder_value (\<lambda>qc shots. Inr [(''0'', 1024)]) (snd (ladder_init empty_heap 3))
               (fst (ladder_init empty_heap 3)) 1024)) (ladder_qc (fst (ladder_init empty_heap 3)))
       = cells (snd (ladder_init empty_heap 3)) (ladder_qc (fst (ladder_init empty_heap 3)))"
proof -
  have a: "ladder_qc (fst (ladder_init empty_heap 3)) < next_addr (snd (ladder_init empty_heap 3))"
    by (simp add: ladder_init_def alloc_def)
  from ladder_value_readonly[OF a] a show ?thesis by blast
qed

text \<open>The noiseless state of the one-element register of a ladder after its rotations,
  the circuit that \<^verbatim>\<open>value\<close> hands to the backend, and the decoding.\<close>

lemma ket_rx_state: "ket [False] = rx_state 0"
  by (auto simp: ket_def rx_state_def)

lemma flip_at_0_single: "flip_at 0 [b] = [\<not> b]"
  by (simp add: flip_at_def)

lemma length_flip_at [simp]: "length (flip_at i s) = length s"
  by (simp add: flip_at_def)

lemma nth_flip_at: "j < length s \<Longrightarrow> flip_at i s ! j = (if j = i then \<not> s ! j else s ! j)"
  by (simp add: flip_at_def)

lemma flip_at_flip_at [simp]: "flip_at i (flip_at i s) = s"
  by (simp add: flip_at_def)

lemma run_gates_append: "run_gates (gs @ hs) \<psi> = run_gates hs (run_gates gs \<psi>)"
  by (simp add: run_gates_def)

lemma run_gates_Cons: "run_gates (g # gs) \<psi> = run_gates gs (apply_gate g \<psi>)"
  by (simp add: run_gates_def)

lemma apply_rx_state: "apply_gate (Gate_rx \<theta> 0) (rx_state \<Theta>) = rx_state (\<Theta> + \<theta>)"
proof
  fix s
  consider "s = [False]" | "s = [True]" | "s = []" | "length s \<ge> 2"
    by (cases s; cases "tl s"; cases "hd s") auto
  then show "apply_gate (Gate_rx \<theta> 0) (rx_state \<Theta>) s = rx_state (\<Theta> + \<theta>) s"
  proof cases
    case 1
    then show ?thesis
      by (simp add: rx_state_def flip_at_0_single add_divide_distrib cos_add algebra_simps)
  next
    case 2
    then show ?thesis
      by (simp add: rx_state_def flip_at_0_single add_divide_distrib sin_add algebra_simps)
  next
    case 3
    then show ?thesis by (simp add: rx_state_def)
  next
    case 4
    then have "length (flip_at 0 s) \<ge> 2" by simp
    with 4 have "s \<noteq> [False]" "s \<noteq> [True]" "flip_at 0 s \<noteq> [False]" "flip_at 0 s \<noteq> [True]"
      by (auto simp del: length_flip_at)
    then show ?thesis by (simp add: rx_state_def)
  qed
qed

lemma run_rx_state:
  "run_gates (map (\<lambda>\<theta>. Gate_rx \<theta> 0) ts) (rx_state \<Theta>) = rx_state (\<Theta> + sum_list ts)"
proof (induction ts arbitrary: \<Theta>)
  case Nil
  then show ?case by (simp add: run_gates_def)
next
  case (Cons t ts)
  then show ?case
    by (simp add: run_gates_Cons apply_rx_state add.assoc del: apply_gate.simps)
qed

lemma noiseless_probability_rx:
  "noiseless_probability \<lparr>nqubits = 1, ops = map (\<lambda>\<theta>. Gate_rx \<theta> 0) ts @ [Barrier, Measure]\<rparr> ''1''
     = (sin (sum_list ts / 2))\<^sup>2"
proof -
  have "final_state \<lparr>nqubits = 1, ops = map (\<lambda>\<theta>. Gate_rx \<theta> 0) ts @ [Barrier, Measure]\<rparr>
          = rx_state (sum_list ts)"
    using run_rx_state[of ts 0]
    by (simp add: final_state_def run_gates_append ket_rx_state) (simp add: run_gates_def)
  then show ?thesis
    by (simp add: noiseless_probability_def bitstring_def register_of_key_def rx_state_def
        norm_mult power2_eq_square)
qed

lemma py_round_of_int: "py_round (real_of_int k) = k"
  by (simp add: py_round_def)

lemma ladder_decode_sin:
  assumes "0 < d" "0 \<le> k" "k \<le> d"
  shows "ladder_decode d ((sin (pi * real_of_int k / real_of_int d / 2))\<^sup>2) = Inr k"
proof -
  define x where "x = pi * real_of_int k / real_of_int d / 2"
  have x0: "0 \<le> x" using assms by (simp add: x_def)
  have "real_of_int k / real_of_int d \<le> 1" using assms by simp
  then have "pi * (real_of_int k / real_of_int d) \<le> pi * 1"
    by (intro mult_left_mono) simp_all
  then have x1: "x \<le> pi / 2" by (simp add: x_def)
  have s0: "0 \<le> sin x" using x0 x1 by (intro sin_ge_zero) (use pi_ge_two in linarith)+
  have "sqrt ((sin x)\<^sup>2) = sin x" using s0 by simp
  moreover have "arcsin (sin x) = x" using x0 x1 by (intro arcsin_sin) linarith+
  moreover have "2 * x * real_of_int d / pi = real_of_int k"
    using assms(1) by (simp add: x_def)
  moreover have "(sin x)\<^sup>2 \<le> 1" by (simp add: abs_square_le_1 abs_sin_le_one)
  ultimately show ?thesis
    unfolding x_def[symmetric]
    by (simp add: ladder_decode_def py_round_of_int not_less)
qed

text \<open>\<^verbatim>\<open>value\<close> returns \<open>k\<close> exactly when the decoded angle is within 1/2 of \<open>k\<close>: a fraction
  close enough to the noiseless probability decodes to the same integer.\<close>

lemma py_round_near: "\<bar>v - real_of_int k\<bar> < 1 / 2 \<Longrightarrow> py_round v = k"
proof -
  assume a: "\<bar>v - real_of_int k\<bar> < 1 / 2"
  show ?thesis
  proof (cases "real_of_int k \<le> v")
    case True
    with a have "\<lfloor>v\<rfloor> = k" by linarith
    with a True show ?thesis by (simp add: py_round_def Let_def)
  next
    case False
    with a have "\<lfloor>v\<rfloor> = k - 1" by linarith
    with a False show ?thesis by (simp add: py_round_def Let_def)
  qed
qed

lemma ladder_decode_near:
  "0 \<le> p \<Longrightarrow> p \<le> 1 \<Longrightarrow> \<bar>2 * arcsin (sqrt p) * real_of_int d / pi - real_of_int k\<bar> < 1 / 2
     \<Longrightarrow> ladder_decode d p = Inr k"
  by (simp add: ladder_decode_def py_round_near not_less)

lemma ladder_measured_circuit:
  assumes "ladder_qc L < next_addr h"
  shows "cells (snd (ladder_measure h L)) (fst (ladder_measure h L))
           = with_ops (cells h (ladder_qc L)) [Barrier, Measure]"
  by (simp add: ladder_measure_def deepcopy_def alloc_def emit_def with_ops_def append_op_def)

lemma ladder_init_fresh:
  assumes "ladder_init h d = (L, h0)"
  shows "ladder_d L = d" "ladder_qc L < next_addr h0" "cells h0 (ladder_qc L) = QuantumCircuit 1"
  using assms by (auto simp: ladder_init_def alloc_def)

lemma ladder_add_circuit:
  assumes "ladder_d L \<noteq> 0"
  shows "cells (snd (ladder_add h L delta)) (ladder_qc L)
           = with_ops (cells h (ladder_qc L)) [Gate_rx (pi * delta / real_of_int (ladder_d L)) 0]"
    and "next_addr (snd (ladder_add h L delta)) = next_addr h"
  using assms by (simp_all add: ladder_add_def emit_def with_ops_def append_op_def)

lemma ladder_value_noiseless:
  assumes "noiseless_readout exec shots (cells (snd (ladder_measure h L)) (fst (ladder_measure h L)))"
  shows "fst (ladder_value exec h L shots)
           = ladder_decode (ladder_d L)
               (noiseless_probability (cells (snd (ladder_measure h L)) (fst (ladder_measure h L))) ''1'')"
  using assms
  by (auto simp: noiseless_readout_def ladder_value_def split: prod.splits)

lemma ladder_value_Inr:
  "fst (ladder_value exec h L shots) = Inr v \<Longrightarrow>
     \<exists>stats p. fraction_of_ones stats shots = Inr p \<and> ladder_decode (ladder_d L) p = Inr v"
  by (cases "ladder_measure h L") (auto simp: ladder_value_def bind_err_Inr)

text \<open>With 1024 shots and \<open>d = 100\<close> the smallest non-zero fraction already decodes to 2.\<close>

lemma arcsin_ge_arg:
  assumes "0 \<le> x" "x \<le> 1"
  shows "x \<le> arcsin x"
proof -
  have "0 \<le> arcsin x" using assms arcsin_le_arcsin[of 0 x] by simp
  then have "sin (arcsin x) \<le> arcsin x" by (rule sin_x_le_x)
  then show ?thesis using assms by simp
qed

lemma py_round_ge_2: "3 / 2 < v \<Longrightarrow> 2 \<le> py_round v"
proof -
  assume v: "3 / 2 < v"
  then have f: "1 \<le> \<lfloor>v\<rfloor>" by linarith
  show ?thesis
  proof (cases "2 \<le> \<lfloor>v\<rfloor>")
    case True
    then show ?thesis by (simp add: py_round_def Let_def)
  next
    case False
    with f have "\<lfloor>v\<rfloor> = 1" by linarith
    with v show ?thesis by (simp add: py_round_def Let_def)
  qed
qed

lemma ladder_decode_100:
  "ladder_decode 100 (real_of_int c / 1024) \<noteq> Inr 1"
proof (cases "c \<le> 0")
  case True
  then have "real_of_int c / 1024 \<le> 0" by simp
  then consider "real_of_int c / 1024 < 0" | "real_of_int c / 1024 = 0" by linarith
  then show ?thesis
  proof cases
    case 1
    then show ?thesis by (simp add: ladder_decode_def)
  next
    case 2
    then show ?thesis by (simp add: ladder_decode_def py_round_def)
  qed
next
  case False
  then have c1: "1 \<le> real_of_int c" by linarith
  show ?thesis
  proof (cases "1 < real_of_int c / 1024")
    case True
    then show ?thesis by (simp add: ladder_decode_def)
  next
    case le: False
    define p where "p = real_of_int c / 1024"
    have p: "1 / 1024 \<le> p" "p \<le> 1" using c1 le by (simp_all add: p_def)
    have "(1 / 32)\<^sup>2 \<le> p" using p(1) by (simp add: power2_eq_square)
    then have s: "1 / 32 \<le> sqrt p" by (rule real_le_rsqrt)
    have s1: "sqrt p \<le> 1" using p by (simp add: real_sqrt_le_1_iff)
    have "sqrt p \<le> arcsin (sqrt p)" using s s1 by (intro arcsin_ge_arg) linarith+
    with s have a: "1 / 32 \<le> arcsin (sqrt p)" by linarith
    have "3 / 2 * pi < 2 * (1 / 32) * 100" using pi_less_4 by simp
    also have "\<dots> \<le> 2 * arcsin (sqrt p) * 100" using a by simp
    finally have "3 / 2 < 2 * arcsin (sqrt p) * 100 / pi"
      by (simp add: pos_less_divide_eq)
    from py_round_ge_2[OF this] have "py_round (2 * arcsin (sqrt p) * real_of_int 100 / pi) \<noteq> 1"
      by simp
    then show ?thesis using p by (simp add: ladder_decode_def p_def[symmetric] not_less)
  qed
qed




subsection \<open>bitstring_superposer\<close>

text \<open>
  C2. The claim (shorter strings are left-zero-padded before the circuit is built, so
  the encoder behaves as on the padded list) does not hold of the code: the padding loop
  changes nothing, and on \<^verbatim>\<open>['1', '10']\<close> the function raises IndexError, where on the
  padded list \<^verbatim>\<open>['01', '10']\<close> it builds a circuit.
\<close>

theorem superposer_padding_lost:
  "superposer_circuit [''1'', ''10''] = Inl IndexError
   \<and> padded [''1'', ''10''] = [''01'', ''10'']
   \<and> superposer_circuit (padded [''1'', ''10''])
       = Inr \<lparr>nqubits = 2, ops = [Gate_h 0, Gate_cx 0 1, Gate_x 1, Barrier, Measure]\<rparr>"
  by code_simp

text \<open>On a list of strings of one length the padding changes nothing: there the code and
  its comment agree.\<close>

lemma longest_equal_aux:
  "\<forall>s \<in> set strings. length s = n \<Longrightarrow>
     foldl (\<lambda>num string. max (length string) num) m strings = (if strings = [] then m else max n m)"
  by (induction strings arbitrary: m) auto

lemma padded_equal_length:
  assumes "\<forall>s \<in> set strings. length s = n"
  shows "padded strings = strings"
proof -
  have "longest strings = (if strings = [] then 0 else n)"
    using longest_equal_aux[OF assms, of 0] by (simp add: longest_def)
  then show ?thesis using assms by (auto simp: padded_def intro: map_idI)
qed

text \<open>The circuit that the function builds for two strings of one length.\<close>

lemma compare_bits_result:
  assumes "\<forall>i \<in> set bits. i < length a \<and> i < length b"
  shows "compare_bits [a, b] bits qc diff =
           Inr (with_ops qc (map Gate_x (filter (\<lambda>i. a ! i = b ! i \<and> a ! i = CHR ''1'') bits)),
                diff @ filter (\<lambda>i. a ! i \<noteq> b ! i) bits)"
  using assms
proof (induction bits arbitrary: qc diff)
  case Nil
  then show ?case by simp
next
  case (Cons i bits)
  then show ?case
    by (simp add: py_index_nat py_index_0 py_index_1 append_op_with_ops)
qed

lemma flip_ones_result:
  assumes "\<forall>i \<in> set bits. i < length a"
  shows "flip_ones (a # rest) bits qc =
           Inr (with_ops qc (map Gate_x (filter (\<lambda>i. a ! i = CHR ''1'') bits)))"
  using assms
proof (induction bits arbitrary: qc)
  case Nil
  then show ?case by simp
next
  case (Cons i bits)
  then show ?case
    by (simp add: py_index_nat py_index_0 append_op_with_ops)
qed

lemma foldl_cx_result:
  "foldl (\<lambda>qc bt. append_op qc (Gate_cx d bt)) qc bits = with_ops qc (map (Gate_cx d) bits)"
  by (induction bits arbitrary: qc) (simp_all add: append_op_with_ops)

lemma foldl_h_result:
  "foldl (\<lambda>qc n. append_op qc (Gate_h n)) qc bits = with_ops qc (map Gate_h bits)"
  by (induction bits arbitrary: qc) (simp_all add: append_op_with_ops)

lemma longest_pair: "longest [a, b] = max (length a) (length b)"
  by (simp add: longest_def max.commute)

lemma superposer_circuit_pair:
  assumes "length a = n" "length b = n" "n \<noteq> 1"
    and "filter (\<lambda>i. a ! i \<noteq> b ! i) [0..<n] = d0 # ds"
  shows "superposer_circuit [a, b] =
     Inr \<lparr>nqubits = n,
          ops = map Gate_x (filter (\<lambda>i. a ! i = b ! i \<and> a ! i = CHR ''1'') [0..<n])
                @ [Gate_h d0] @ map (Gate_cx d0) ds
                @ map Gate_x (filter (\<lambda>i. a ! i = CHR ''1'') (d0 # ds)) @ [Barrier, Measure]\<rparr>"
proof -
  have two: "(2::nat) \<noteq> 2 ^ n"
    using assms(3) by (metis power_one_right power_inject_exp one_less_numeral_iff semiring_norm(76))
  have bits: "\<forall>i \<in> set [0..<n]. i < length a \<and> i < length b"
    using assms(1,2) by simp
  have dbits: "\<forall>i \<in> set (d0 # ds). i < length a"
  proof
    fix i assume "i \<in> set (d0 # ds)"
    then have "i \<in> set (filter (\<lambda>i. a ! i \<noteq> b ! i) [0..<n])" using assms(4) by simp
    then show "i < length a" using assms(1) by simp
  qed
  have cb: "compare_bits [a, b] [0..<n] (QuantumCircuit n) [] =
      Inr (with_ops (QuantumCircuit n)
             (map Gate_x (filter (\<lambda>i. a ! i = b ! i \<and> a ! i = CHR ''1'') [0..<n])), d0 # ds)"
    using compare_bits_result[OF bits, of "QuantumCircuit n" "[]"] assms(4) by simp
  have "superposer_circuit [a, b] =
      Inr (append_op (append_op (with_ops (with_ops (append_op (with_ops (QuantumCircuit n)
             (map Gate_x (filter (\<lambda>i. a ! i = b ! i \<and> a ! i = CHR ''1'') [0..<n]))) (Gate_h d0))
             (map (Gate_cx d0) ds)) (map Gate_x (filter (\<lambda>i. a ! i = CHR ''1'') (d0 # ds))))
             Barrier) Measure)"
    using two
    by (simp add: superposer_circuit_def longest_pair assms(1,2) cb
        flip_ones_result[OF dbits] foldl_cx_result Let_def
        del: filter.simps flip_ones.simps compare_bits.simps)
  then show ?thesis
    by (simp add: with_ops_def append_op_def QuantumCircuit_def del: filter.simps)
qed

lemma superposer_circuit_single:
  assumes "length a = 1" "length b = 1"
  shows "superposer_circuit [a, b] = Inr \<lparr>nqubits = 1, ops = [Gate_h 0, Barrier, Measure]\<rparr>"
  using assms
  by (simp add: superposer_circuit_def longest_pair foldl_h_result with_ops_def append_op_def
      QuantumCircuit_def Let_def)

text \<open>On the noiseless backend \<^verbatim>\<open>x\<close> and \<^verbatim>\<open>cx\<close> permute the register contents, and \<^verbatim>\<open>h\<close> on
  an element that reads 0 makes the superposition of two contents.\<close>

lemma length_classical [simp]: "length (classical g s) = length s"
  by (cases g) simp_all

lemma classical_involution: "is_classical g \<Longrightarrow> classical g (classical g s) = s"
  by (cases g) (auto simp: nth_flip_at)

lemma classical_eq_iff: "is_classical g \<Longrightarrow> classical g s = u \<longleftrightarrow> s = classical g u"
  using classical_involution by metis

lemma apply_classical: "is_classical g \<Longrightarrow> apply_gate g \<psi> = (\<lambda>s. \<psi> (classical g s))"
  by (cases g) auto

lemma apply_classical_ket: "is_classical g \<Longrightarrow> apply_gate g (ket u) = ket (classical g u)"
  by (simp add: apply_classical ket_def classical_eq_iff)

lemma apply_classical_sup2:
  "is_classical g \<Longrightarrow> apply_gate g (sup2 u v) = sup2 (classical g u) (classical g v)"
  by (simp add: apply_classical sup2_def classical_eq_iff)

lemma run_classical_ket:
  "\<forall>g \<in> set gs. is_classical g \<Longrightarrow>
     run_gates gs (ket u) = ket (foldl (\<lambda>u g. classical g u) u gs)"
  by (induction gs arbitrary: u) (simp_all add: run_gates_def apply_classical_ket)

lemma run_classical_sup2:
  "\<forall>g \<in> set gs. is_classical g \<Longrightarrow>
     run_gates gs (sup2 u v)
       = sup2 (foldl (\<lambda>u g. classical g u) u gs) (foldl (\<lambda>u g. classical g u) v gs)"
  by (induction gs arbitrary: u v) (simp_all add: run_gates_def apply_classical_sup2)

lemma update_False_eq_iff:
  assumes "i < length u" "\<not> u ! i" "i < length s"
  shows "s[i := False] = u \<longleftrightarrow> s = u \<or> s = u[i := True]"
proof
  assume e: "s[i := False] = u"
  show "s = u \<or> s = u[i := True]"
  proof (cases "s ! i")
    case False
    then have "s[i := False] = s" by (metis list_update_id)
    with e show ?thesis by simp
  next
    case True
    then have "s = (s[i := False])[i := True]" by (metis list_update_id list_update_overwrite)
    with e show ?thesis by simp
  qed
next
  assume "s = u \<or> s = u[i := True]"
  moreover have "u[i := False] = u" using assms(2) by (metis list_update_id)
  ultimately show "s[i := False] = u" by auto
qed

lemma update_True_neq:
  assumes "i < length u" "\<not> u ! i"
  shows "s[i := True] \<noteq> u"
proof
  assume "s[i := True] = u"
  then have "(s[i := True]) ! i = u ! i" "length s = length u" by auto
  with assms show False by simp
qed

lemma apply_h_ket:
  assumes "i < length u" "\<not> u ! i"
  shows "apply_gate (Gate_h i) (ket u) = sup2 u (u[i := True])"
proof
  fix s
  show "apply_gate (Gate_h i) (ket u) s = sup2 u (u[i := True]) s"
  proof (cases "i < length s")
    case False
    then have "s \<noteq> u" "s \<noteq> u[i := True]" using assms(1) by auto
    with False show ?thesis by (simp add: ket_def sup2_def)
  next
    case True
    have ne: "u \<noteq> u[i := True]" using update_True_neq[OF assms] by metis
    show ?thesis
      using True update_False_eq_iff[OF assms True] update_True_neq[OF assms, of s] ne
      by (auto simp: ket_def sup2_def)
  qed
qed

lemma nth_foldl_x:
  "distinct xs \<Longrightarrow> j < length u \<Longrightarrow>
     foldl (\<lambda>u g. classical g u) u (map Gate_x xs) ! j = (u ! j \<noteq> (j \<in> set xs))"
proof (induction xs arbitrary: u)
  case Nil
  then show ?case by simp
next
  case (Cons i xs)
  then show ?case by (auto simp: nth_flip_at)
qed

lemma length_foldl_classical [simp]: "length (foldl (\<lambda>u g. classical g u) u gs) = length u"
  by (induction gs arbitrary: u) simp_all

lemma nth_foldl_cx:
  "distinct ds \<Longrightarrow> d0 \<notin> set ds \<Longrightarrow> d0 < length u \<Longrightarrow> j < length u \<Longrightarrow>
     foldl (\<lambda>u g. classical g u) u (map (Gate_cx d0) ds) ! j = (u ! j \<noteq> (u ! d0 \<and> j \<in> set ds))"
proof (induction ds arbitrary: u)
  case Nil
  then show ?case by simp
next
  case (Cons d ds)
  then show ?case by (auto simp: nth_flip_at)
qed

text \<open>The final state for two different bit-strings is the superposition of the two
  contents the strings name.\<close>

lemma length_bits_of [simp]: "length (bits_of k) = length k"
  by (simp add: bits_of_def)

lemma bits_of_inj: "bitstring k \<Longrightarrow> bitstring a \<Longrightarrow> bits_of k = bits_of a \<Longrightarrow> k = a"
proof (induction k arbitrary: a)
  case Nil
  then show ?case by (simp add: bits_of_def)
next
  case (Cons c k)
  then show ?case by (cases a) (auto simp: bits_of_def bitstring_def)
qed

lemma sup2_commute: "sup2 u v = sup2 v u"
  by (auto simp: sup2_def)

lemma sup2_prob:
  "u \<noteq> v \<Longrightarrow> (cmod (sup2 u v s))\<^sup>2 = (if s = u \<or> s = v then 1 / 2 else 0)"
  by (auto simp: sup2_def norm_divide power_divide)

lemma bitstring_nth: "bitstring k \<Longrightarrow> j < length k \<Longrightarrow> k ! j = CHR ''0'' \<or> k ! j = CHR ''1''"
  by (simp add: bitstring_def list_all_length)

lemma final_state_single:
  assumes "length a = 1" "length b = 1" "a \<noteq> b" "bitstring a" "bitstring b"
  shows "\<exists>qc. superposer_circuit [a, b] = Inr qc \<and> nqubits qc = 1
            \<and> final_state qc = sup2 (bits_of a) (bits_of b)"
proof -
  obtain x where a: "a = [x]" using assms(1) by (cases a) auto
  obtain y where b: "b = [y]" using assms(2) by (cases b) auto
  have xy: "x \<noteq> y" "x = CHR ''0'' \<or> x = CHR ''1''" "y = CHR ''0'' \<or> y = CHR ''1''"
    using assms(3,4,5) a b by (auto simp: bitstring_def)
  have h: "final_state \<lparr>nqubits = 1, ops = [Gate_h 0, Barrier, Measure]\<rparr> = sup2 [False] [True]"
    using apply_h_ket[of 0 "[False]"] by (simp add: final_state_def run_gates_def)
  have "sup2 (bits_of a) (bits_of b) = sup2 [False] [True]"
    using xy a b by (auto simp: bits_of_def sup2_commute)
  with h superposer_circuit_single[OF assms(1,2)] show ?thesis by simp
qed

lemma final_state_general:
  assumes la: "length a = n" and lb: "length b = n" and n1: "n \<noteq> 1" and ab: "a \<noteq> b"
    and ba: "bitstring a" and bb: "bitstring b"
  shows "\<exists>qc. superposer_circuit [a, b] = Inr qc \<and> nqubits qc = n
            \<and> final_state qc = sup2 (bits_of a) (bits_of b)"
proof -
  define A1 where "A1 = filter (\<lambda>i. a ! i = b ! i \<and> a ! i = CHR ''1'') [0..<n]"
  define diff where "diff = filter (\<lambda>i. a ! i \<noteq> b ! i) [0..<n]"
  have "\<exists>i<n. a ! i \<noteq> b ! i"
    using ab la lb by (metis nth_equalityI)
  then have "diff \<noteq> []" by (auto simp: diff_def filter_empty_conv)
  then obtain d0 ds where dd: "diff = d0 # ds" by (cases diff) auto
  define F where "F = filter (\<lambda>i. a ! i = CHR ''1'') (d0 # ds)"
  define cl where "cl = (\<lambda>(u::bool list) g. classical g u)"
  define u0 where "u0 = replicate n False"
  define u1 where "u1 = foldl cl u0 (map Gate_x A1)"
  define rest where "rest = map (Gate_cx d0) ds @ map Gate_x F @ [Barrier, Measure]"
  define qc where "qc = \<lparr>nqubits = n, ops = map Gate_x A1 @ [Gate_h d0] @ rest\<rparr>"
  have circ: "superposer_circuit [a, b] = Inr qc"
    using superposer_circuit_pair[OF la lb n1 dd[unfolded diff_def]]
    by (simp add: qc_def rest_def A1_def F_def)
  have setA: "set A1 = {i. i < n \<and> a ! i = b ! i \<and> a ! i = CHR ''1''}"
    by (auto simp: A1_def)
  have setD: "set (d0 # ds) = {i. i < n \<and> a ! i \<noteq> b ! i}"
  proof -
    have "set diff = {i. i < n \<and> a ! i \<noteq> b ! i}" by (auto simp: diff_def)
    then show ?thesis by (simp only: dd)
  qed
  have setF: "set F = {i. i < n \<and> a ! i \<noteq> b ! i \<and> a ! i = CHR ''1''}"
    using setD by (auto simp: F_def simp del: filter.simps)
  have distA: "distinct A1" by (simp add: A1_def)
  have distD: "distinct (d0 # ds)" using dd[symmetric] by (simp add: diff_def del: distinct.simps)
  have distF: "distinct F" using distD by (simp add: F_def del: filter.simps distinct.simps)
  have d0: "d0 < n" "a ! d0 \<noteq> b ! d0" "d0 \<notin> set ds" "distinct ds"
    using setD distD by auto
  have lu1: "length u1 = n" by (simp add: u1_def u0_def cl_def)
  have u1n: "u1 ! j = (j \<in> set A1)" if "j < n" for j
    using that nth_foldl_x[OF distA, of j u0] by (simp add: u1_def u0_def cl_def)
  have s1: "run_gates (map Gate_x A1) (ket u0) = ket u1"
    by (simp add: run_classical_ket u1_def cl_def)
  have nd: "\<not> u1 ! d0" using u1n[OF d0(1)] d0(2) setA by simp
  then have s2: "apply_gate (Gate_h d0) (ket u1) = sup2 u1 (u1[d0 := True])"
    using apply_h_ket[of d0 u1] d0(1) lu1 by simp
  have clr: "\<forall>g \<in> set rest. is_classical g"
    using d0(3) by (auto simp: rest_def)
  have fs: "final_state qc = sup2 (foldl cl u1 rest) (foldl cl (u1[d0 := True]) rest)"
    using run_classical_sup2[OF clr, of u1 "u1[d0 := True]"] s1 s2
    by (simp add: final_state_def qc_def run_gates_append run_gates_Cons u0_def cl_def)
  have nth_rest: "foldl cl v rest ! j = ((v ! j \<noteq> (v ! d0 \<and> j \<in> set ds)) \<noteq> (j \<in> set F))"
    if "length v = n" "j < n" for v j
    using that nth_foldl_x[OF distF, of j "foldl cl v (map (Gate_cx d0) ds)"]
      nth_foldl_cx[OF d0(4) d0(3), of v j] d0(1)
    by (simp add: rest_def cl_def)
  have bits: "(a ! j = CHR ''0'' \<or> a ! j = CHR ''1'') \<and> (b ! j = CHR ''0'' \<or> b ! j = CHR ''1'')"
    if "j < n" for j
    using that bitstring_nth[OF ba, of j] bitstring_nth[OF bb, of j] la lb by simp
  have U: "foldl cl u1 rest = bits_of a"
  proof (rule nth_equalityI)
    show "length (foldl cl u1 rest) = length (bits_of a)" by (simp add: cl_def lu1 la)
  next
    fix j assume "j < length (foldl cl u1 rest)"
    then have j: "j < n" by (simp add: cl_def lu1)
    have "foldl cl u1 rest ! j = ((j \<in> set A1) \<noteq> (j \<in> set F))"
      using nth_rest[OF lu1 j] u1n[OF j] nd by simp
    also have "\<dots> = (a ! j = CHR ''1'')"
      using j by (auto simp: setA setF)
    also have "\<dots> = bits_of a ! j"
      using j la by (simp add: bits_of_def)
    finally show "foldl cl u1 rest ! j = bits_of a ! j" .
  qed
  have V: "foldl cl (u1[d0 := True]) rest = bits_of b"
  proof (rule nth_equalityI)
    show "length (foldl cl (u1[d0 := True]) rest) = length (bits_of b)"
      by (simp add: cl_def lu1 lb)
  next
    fix j assume "j < length (foldl cl (u1[d0 := True]) rest)"
    then have j: "j < n" by (simp add: cl_def lu1)
    have v0: "(u1[d0 := True]) ! j = (j = d0 \<or> j \<in> set A1)"
      using j lu1 u1n[OF j] d0(1) by (auto simp: nth_list_update)
    have v0d: "(u1[d0 := True]) ! d0" using d0(1) lu1 by simp
    have "length (u1[d0 := True]) = n" using lu1 by simp
    from nth_rest[OF this j] v0 v0d
    have "foldl cl (u1[d0 := True]) rest ! j
            = (((j = d0 \<or> j \<in> set A1) \<noteq> (j \<in> set ds)) \<noteq> (j \<in> set F))"
      by simp
    also have "\<dots> = (b ! j = CHR ''1'')"
    proof -
      have "j \<in> set (d0 # ds) \<longleftrightarrow> a ! j \<noteq> b ! j" using j by (simp only: setD) simp
      then have jds: "j \<in> set ds \<longleftrightarrow> j \<noteq> d0 \<and> a ! j \<noteq> b ! j"
        using d0(3) by auto
      have jA: "j \<in> set A1 \<longleftrightarrow> a ! j = b ! j \<and> a ! j = CHR ''1''"
        using j by (simp add: setA)
      have jF: "j \<in> set F \<longleftrightarrow> a ! j \<noteq> b ! j \<and> a ! j = CHR ''1''"
        using j by (simp add: setF)
      show ?thesis
        unfolding jds jA jF using bits[OF j] d0(2) by (cases "j = d0") auto
    qed
    also have "\<dots> = bits_of b ! j"
      using j lb by (simp add: bits_of_def)
    finally show "foldl cl (u1[d0 := True]) rest ! j = bits_of b ! j" .
  qed
  from circ fs U V show ?thesis by (simp add: qc_def)
qed



text \<open>The returned mapping holds at a key the fraction of the reversed key.\<close>

lemma reverse_keys_total: "shots \<noteq> 0 \<Longrightarrow> \<exists>stats'. reverse_keys raw shots stats = Inr stats'"
  by (induction raw arbitrary: stats) auto

lemma reverse_keys_lookup_aux:
  "shots \<noteq> 0 \<Longrightarrow> distinct (map fst raw) \<Longrightarrow> reverse_keys raw shots acc = Inr stats \<Longrightarrow>
     map_of stats k = (case map_of raw (rev k) of
                         Some c \<Rightarrow> Some (real_of_int c / real_of_int shots)
                       | None \<Rightarrow> map_of acc k)"
proof (induction raw arbitrary: acc)
  case Nil
  then show ?case by simp
next
  case (Cons sc raw)
  obtain s c where sc: "sc = (s, c)" by (cases sc)
  from Cons.prems sc
  have r: "reverse_keys raw shots (AList.update (rev s) (real_of_int c / real_of_int shots) acc) = Inr stats"
    and d: "distinct (map fst raw)" and s: "map_of raw s = None"
    by (auto simp: map_of_eq_None_iff)
  from Cons.IH[OF Cons.prems(1) d r] s sc show ?case
    by (auto simp: update_conv' split: option.splits)
qed

lemma reverse_keys_lookup:
  "shots \<noteq> 0 \<Longrightarrow> distinct (map fst raw) \<Longrightarrow> reverse_keys raw shots [] = Inr stats \<Longrightarrow>
     map_of stats k = map_option (\<lambda>c. real_of_int c / real_of_int shots) (map_of raw (rev k))"
  using reverse_keys_lookup_aux[of shots raw "[]" stats k] by (simp split: option.splits)

text \<open>
  C8. When every list of the input builds a circuit, the backend answers and \<open>shots\<close> is
  not 0, \<^verbatim>\<open>bitstring_superposer\<close> computes one mapping per input list, the \<open>j\<close>-th from the
  counts of the \<open>j\<close>-th circuit, which is the circuit of the \<open>j\<close>-th list; it returns the
  list of these mappings in that order, except that a list of one mapping is returned
  as the mapping itself, which is always so for an input that is a single list of
  strings.
\<close>

theorem bitstring_superposer_results:
  assumes "strings_list_of arg = Inr strings_list"
    and "map_err superposer_circuit strings_list = Inr batch"
    and "exec batch shots = Inr job"
    and "shots \<noteq> 0"
  shows "\<exists>stats_list.
           length stats_list = length strings_list \<and> length batch = length strings_list
         \<and> (\<forall>j<length strings_list.
                superposer_circuit (strings_list ! j) = Inr (batch ! j)
              \<and> reverse_keys (job j) shots [] = Inr (stats_list ! j))
         \<and> bitstring_superposer exec arg shots
              = Inr (if length strings_list = 1 then OneDict (stats_list ! 0) else DictList stats_list)
         \<and> (\<forall>strings. arg = Strings strings \<longrightarrow>
                bitstring_superposer exec arg shots = Inr (OneDict (stats_list ! 0)))"
proof -
  obtain stats_list where
    s: "map_err (\<lambda>j. reverse_keys (job j) shots []) [0..<length strings_list] = Inr stats_list"
    using map_err_total[of "[0..<length strings_list]" "\<lambda>j. reverse_keys (job j) shots []"]
      reverse_keys_total[OF assms(4)] by blast
  note b = map_err_Inr[OF assms(2)]
  note r = map_err_Inr[OF s]
  have len: "length stats_list = length strings_list" using r by simp
  have each: "reverse_keys (job j) shots [] = Inr (stats_list ! j)" if "j < length strings_list" for j
    using r that by simp
  have res: "bitstring_superposer exec arg shots
      = Inr (if length strings_list = 1 then OneDict (stats_list ! 0) else DictList stats_list)"
    using assms(1,2,3) s len by (simp add: bitstring_superposer_def)
  have single: "length strings_list = 1" if "arg = Strings strings" for strings
    using assms(1) that by (auto simp: strings_list_of_def split: if_splits)
  show ?thesis
    using len b each res single by (intro exI[of _ stats_list]) auto
qed

text \<open>The theorem for the batch \<^verbatim>\<open>[['00', '11'], ['01', '10']]\<close> and 4 shots.\<close>

theorem bitstring_superposer_results_witness:
  "bitstring_superposer
     (\<lambda>batch shots. Inr (\<lambda>j. if j = 0 then [(''00'', 2), (''11'', 2)] else [(''10'', 1), (''01'', 3)]))
     (StringLists [[''00'', ''11''], [''01'', ''10'']]) 4
   = Inr (DictList [[(''00'', 1 / 2), (''11'', 1 / 2)], [(''01'', 1 / 4), (''10'', 3 / 4)]])"
proof -
  define job :: "nat \<Rightarrow> counts"
    where "job = (\<lambda>j. if j = 0 then [(''00'', 2), (''11'', 2)] else [(''10'', 1), (''01'', 3)])"
  have a: "strings_list_of (StringLists [[''00'', ''11''], [''01'', ''10'']])
             = Inr [[''00'', ''11''], [''01'', ''10'']]"
    by (simp add: strings_list_of_def)
  have c1: "superposer_circuit [''00'', ''11'']
      = Inr \<lparr>nqubits = 2, ops = [Gate_h 0, Gate_cx 0 1, Barrier, Measure]\<rparr>"
    by code_simp
  have c2: "superposer_circuit [''01'', ''10'']
      = Inr \<lparr>nqubits = 2, ops = [Gate_h 0, Gate_cx 0 1, Gate_x 1, Barrier, Measure]\<rparr>"
    by code_simp
  have b: "map_err superposer_circuit [[''00'', ''11''], [''01'', ''10'']]
      = Inr [\<lparr>nqubits = 2, ops = [Gate_h 0, Gate_cx 0 1, Barrier, Measure]\<rparr>,
             \<lparr>nqubits = 2, ops = [Gate_h 0, Gate_cx 0 1, Gate_x 1, Barrier, Measure]\<rparr>]"
    by (simp add: c1 c2)
  have four: "(4::int) \<noteq> 0" by simp
  from bitstring_superposer_results[OF a b _ four, of "\<lambda>batch shots. Inr job" job, OF refl]
  obtain stats_list where
    len0: "length stats_list = length [[''00'', ''11''], [''01'', ''10'']]"
    and each0: "\<forall>j<length [[''00'', ''11''], [''01'', ''10'']].
        superposer_circuit ([[''00'', ''11''], [''01'', ''10'']] ! j)
          = Inr ([\<lparr>nqubits = 2, ops = [Gate_h 0, Gate_cx 0 1, Barrier, Measure]\<rparr>,
             \<lparr>nqubits = 2, ops = [Gate_h 0, Gate_cx 0 1, Gate_x 1, Barrier, Measure]\<rparr>] ! j)
        \<and> reverse_keys (job j) 4 [] = Inr (stats_list ! j)"
    and res0: "bitstring_superposer (\<lambda>batch shots. Inr job)
                (StringLists [[''00'', ''11''], [''01'', ''10'']]) 4
        = Inr (if length [[''00'', ''11''], [''01'', ''10'']] = 1 then OneDict (stats_list ! 0)
               else DictList stats_list)"
    by blast
  have len: "length stats_list = 2" using len0 by simp
  have res: "bitstring_superposer (\<lambda>batch shots. Inr job)
                (StringLists [[''00'', ''11''], [''01'', ''10'']]) 4 = Inr (DictList stats_list)"
    using res0 by simp
  from each0 have "reverse_keys (job 0) 4 [] = Inr (stats_list ! 0)"
    "reverse_keys (job 1) 4 [] = Inr (stats_list ! 1)"
    by simp_all
  then have "stats_list ! 0 = [(''00'', 1 / 2), (''11'', 1 / 2)]"
    "stats_list ! 1 = [(''01'', 1 / 4), (''10'', 3 / 4)]"
    by (simp_all add: job_def)
  with len have "stats_list = [[(''00'', 1 / 2), (''11'', 1 / 2)], [(''01'', 1 / 4), (''10'', 3 / 4)]]"
    by (cases stats_list; cases "tl stats_list") auto
  with res show ?thesis by (simp add: job_def)
qed

subsection \<open>layout\<close>

text \<open>
  C1. The claim (every coupler of a grid references two distinct indices in
  \<open>[0, Lx*Ly)\<close>) does not hold of the code: the grid \<^verbatim>\<open>[1, 2]\<close> has two elements and the one
  coupler \<^verbatim>\<open>[0, 2]\<close>, and \<^verbatim>\<open>calculate_probs\<close> of this layout raises on two-character outcomes.
\<close>

theorem layout_grid_1_2_out_of_range:
  "snd (layout_init get_backend (DeviceGrid [1, 2]))
     = Inr \<lparr>num = 2, pairs = [(65, [0, 2])],
            pos = [(Element 0, (0, 0)), (Element 2, (0, 1)), (Coupler 65, (0, 1 / 2))]\<rparr>
   \<and> calculate_probs \<lparr>num = 2, pairs = [(65, [0, 2])],
            pos = [(Element 0, (0, 0)), (Element 2, (0, 1)), (Coupler 65, (0, 1 / 2))]\<rparr>
        [(''01'', 3), (''10'', 1)] = Inl IndexError"
proof
  show "snd (layout_init get_backend (DeviceGrid [1, 2]))
     = Inr \<lparr>num = 2, pairs = [(65, [0, 2])],
            pos = [(Element 0, (0, 0)), (Element 2, (0, 1)), (Coupler 65, (0, 1 / 2))]\<rparr>"
    by code_simp
  show "calculate_probs \<lparr>num = 2, pairs = [(65, [0, 2])],
            pos = [(Element 0, (0, 0)), (Element 2, (0, 1)), (Coupler 65, (0, 1 / 2))]\<rparr>
        [(''01'', 3), (''10'', 1)] = Inl IndexError"
    by code_simp
qed

text \<open>What the constructor does achieve for a grid with \<open>Ly \<ge> 1\<close>: every coupler has two
  indices \<open>0 \<le> n < m\<close>, and on a square grid \<open>m\<close> is below the number of elements.\<close>

lemma add_pairs_values:
  "add_pairs char ps prs = Inr (char', prs') \<Longrightarrow> snd ` set prs' \<subseteq> snd ` set prs \<union> set ps"
proof (induction ps arbitrary: char prs)
  case Nil
  then show ?case by simp
next
  case (Cons pair ps)
  from Cons.prems obtain label where
    r: "add_pairs (char + 1) ps (AList.update label pair prs) = Inr (char', prs')"
    by (auto simp: bind_err_Inr)
  from Cons.IH[OF r] update_values[of label pair prs] show ?case by auto
qed

lemma grid_pairs_x_shape:
  assumes "pair \<in> set (grid_pairs_x Lx Ly)" "1 \<le> Ly"
  shows "\<exists>n m. pair = [n, m] \<and> 0 \<le> n \<and> n < m \<and> (Lx = Ly \<longrightarrow> m < Lx * Ly)"
proof -
  from assms(1) obtain x y where x: "0 \<le> x" "x < Lx - 1" and y: "0 \<le> y" "y < Ly"
    and p: "pair = [x + y * Ly, x + y * Ly + 1]"
    unfolding grid_pairs_x_def set_concat set_map by (auto simp: py_range_set)
  have y0: "0 \<le> y * Ly" using y(1) assms(2) by simp
  have "y * Ly \<le> (Ly - 1) * Ly" using y(2) assms(2) by (intro mult_right_mono) auto
  then have "y * Ly \<le> Ly * Ly - Ly" by (simp add: algebra_simps)
  with x have "Lx = Ly \<longrightarrow> x + y * Ly + 1 < Lx * Ly" by auto
  with p x(1) y0 show ?thesis by auto
qed

lemma grid_pairs_y_shape:
  assumes "pair \<in> set (grid_pairs_y Lx Ly)" "1 \<le> Ly"
  shows "\<exists>n m. pair = [n, m] \<and> 0 \<le> n \<and> n < m \<and> (Lx = Ly \<longrightarrow> m < Lx * Ly)"
proof -
  from assms(1) obtain x y where x: "0 \<le> x" "x < Lx" and y: "0 \<le> y" "y < Ly - 1"
    and p: "pair = [x + y * Ly, x + y * Ly + Ly]"
    unfolding grid_pairs_y_def set_concat set_map by (auto simp: py_range_set)
  have y0: "0 \<le> y * Ly" using y(1) assms(2) by simp
  have "y * Ly \<le> (Ly - 2) * Ly" using y(2) assms(2) by (intro mult_right_mono) auto
  then have "y * Ly \<le> Ly * Ly - 2 * Ly" by (simp add: algebra_simps)
  with x have "Lx = Ly \<longrightarrow> x + y * Ly + Ly < Lx * Ly" by auto
  with p x(1) y0 assms(2) show ?thesis by auto
qed

lemma layout_grid_couplers:
  assumes "layout_init get_backend (DeviceGrid [Lx, Ly]) = (trace, Inr L)" "1 \<le> Ly"
    and "lp \<in> set (pairs L)"
  shows "\<exists>n m. snd lp = [n, m] \<and> 0 \<le> n \<and> n < m \<and> (Lx = Ly \<longrightarrow> m < num L)"
proof -
  from assms(1) obtain char prs char' prs' where
    a: "add_pairs 65 (grid_pairs_x Lx Ly) [] = Inr (char, prs)"
    and b: "add_pairs char (grid_pairs_y Lx Ly) prs = Inr (char', prs')"
    and f: "finish_layout (Lx * Ly) prs' (grid_pos Lx Ly) = Inr L"
    by (auto simp: layout_init_def py_index_0 py_index_1 bind_err_Inr)
  from f have L: "pairs L = prs'" "num L = Lx * Ly"
    by (auto simp: finish_layout_def bind_err_Inr)
  have A: "snd ` set prs \<subseteq> set (grid_pairs_x Lx Ly)"
    using add_pairs_values[OF a] by simp
  have "snd ` set prs' \<subseteq> snd ` set prs \<union> set (grid_pairs_y Lx Ly)"
    by (rule add_pairs_values[OF b])
  also have "\<dots> \<subseteq> set (grid_pairs_x Lx Ly) \<union> set (grid_pairs_y Lx Ly)"
    by (rule Un_mono[OF A subset_refl])
  finally have B: "snd ` set prs' \<subseteq> set (grid_pairs_x Lx Ly) \<union> set (grid_pairs_y Lx Ly)" .
  have "snd lp \<in> snd ` set prs'" using assms(3) L(1) by simp
  then have "snd lp \<in> set (grid_pairs_x Lx Ly) \<union> set (grid_pairs_y Lx Ly)"
    by (rule subsetD[OF B])
  with grid_pairs_x_shape[OF _ assms(2)] grid_pairs_y_shape[OF _ assms(2)] L(2)
  show ?thesis by auto
qed

text \<open>
  C4. For a device that is neither a list nor one of the three recognized names, the
  constructor prints the message of \<open>not_recognized\<close> and then raises (AttributeError, at
  the read of \<^verbatim>\<open>self.pairs\<close>); it makes no backend call.
\<close>

theorem layout_init_unrecognized:
  assumes "\<forall>g. device \<noteq> DeviceGrid g"
    and "\<forall>name. device = DeviceName name \<longrightarrow> name \<notin> set [''ibmqx2'', ''ibmqx4'', ''ibmqx5'']"
  shows "layout_init get_backend device = ([Print not_recognized], Inl AttributeError)
       \<and> (\<forall>name. GetBackend name \<notin> set (fst (layout_init get_backend device)))"
  using assms by (cases device) (auto simp: layout_init_def)

text \<open>The theorem for the name \<^verbatim>\<open>ibmqx3\<close>.\<close>

theorem layout_init_unrecognized_witness:
  "layout_init (\<lambda>name. Inl BackendError) (DeviceName ''ibmqx3'')
     = ([Print not_recognized], Inl AttributeError)"
  using layout_init_unrecognized[of "DeviceName ''ibmqx3''" "\<lambda>name. Inl BackendError"] by simp

text \<open>Each loop of \<^verbatim>\<open>calculate_probs\<close> keeps the keys of \<^verbatim>\<open>probs\<close> distinct, and for one
  outcome string it raises each value at most once, by the probability of the string.\<close>

lemma lookup0_update:
  "lookup0 (AList.update k v d) k' = (if k' = k then v else lookup0 d k')"
  by (simp add: lookup0_def update_conv')

lemma add_elements_distinct:
  "add_elements string p ns probs = Inr probs' \<Longrightarrow> distinct (map fst probs)
     \<Longrightarrow> distinct (map fst probs')"
proof (induction ns arbitrary: probs)
  case Nil
  then show ?case by simp
next
  case (Cons n ns)
  then show ?case
    by (auto simp: bind_err_Inr distinct_update split: if_splits)
qed

lemma add_elements_bounds:
  "add_elements string p ns probs = Inr probs' \<Longrightarrow> distinct ns \<Longrightarrow> 0 \<le> p
     \<Longrightarrow> lookup0 probs k \<le> lookup0 probs' k \<and> lookup0 probs' k \<le> lookup0 probs k + p
         \<and> (k \<notin> Element ` set ns \<longrightarrow> lookup0 probs' k = lookup0 probs k)"
proof (induction ns arbitrary: probs)
  case Nil
  then show ?case by simp
next
  case (Cons n ns)
  from Cons.prems(1) obtain c where c: "py_index string (- n - 1) = Inr c"
    by (auto simp: bind_err_Inr)
  show ?case
  proof (cases "c = CHR ''1''")
    case False
    with Cons.prems c have "add_elements string p ns probs = Inr probs'"
      by (simp add: bind_err_def)
    from Cons.IH[OF this] Cons.prems(2,3) show ?thesis by auto
  next
    case True
    with Cons.prems(1) c obtain v where v: "map_of probs (Element n) = Some v"
      and rest: "add_elements string p ns (AList.update (Element n) (v + p) probs) = Inr probs'"
      by (auto simp: bind_err_Inr dict_get_Inr)
    from Cons.IH[OF rest] Cons.prems(2,3)
    have ih: "lookup0 (AList.update (Element n) (v + p) probs) k \<le> lookup0 probs' k"
      "lookup0 probs' k \<le> lookup0 (AList.update (Element n) (v + p) probs) k + p"
      "k \<notin> Element ` set ns \<Longrightarrow> lookup0 probs' k = lookup0 (AList.update (Element n) (v + p) probs) k"
      by auto
    have vn: "lookup0 probs (Element n) = v" using v by (simp add: lookup0_def)
    show ?thesis
    proof (cases "k = Element n")
      case True
      with Cons.prems(2) have "k \<notin> Element ` set ns" by auto
      with ih(3) True vn Cons.prems(3) show ?thesis by (simp add: lookup0_update)
    next
      case False
      with ih show ?thesis by (auto simp: lookup0_update)
    qed
  qed
qed

lemma add_couplers_distinct:
  "add_couplers string p prs probs = Inr probs' \<Longrightarrow> distinct (map fst probs)
     \<Longrightarrow> distinct (map fst probs')"
proof (induction prs arbitrary: probs)
  case Nil
  then show ?case by simp
next
  case (Cons lp prs)
  then show ?case
    by (cases lp) (auto simp: bind_err_Inr distinct_update split: if_splits)
qed

lemma add_couplers_bounds:
  "add_couplers string p prs probs = Inr probs' \<Longrightarrow> distinct (map fst prs) \<Longrightarrow> 0 \<le> p
     \<Longrightarrow> lookup0 probs k \<le> lookup0 probs' k \<and> lookup0 probs' k \<le> lookup0 probs k + p
         \<and> (k \<notin> Coupler ` fst ` set prs \<longrightarrow> lookup0 probs' k = lookup0 probs k)"
proof (induction prs arbitrary: probs)
  case Nil
  then show ?case by simp
next
  case (Cons lp prs)
  obtain label pair where lp: "lp = (label, pair)" by (cases lp)
  from Cons.prems(1)[unfolded lp add_couplers.simps bind_err_Inr]
  obtain ca :: char and cb :: char where
    step: "(if ca \<noteq> cb then
         bind_err (dict_get probs (Coupler label)) (\<lambda>v.
           add_couplers string p prs (AList.update (Coupler label) (v + p) probs))
       else add_couplers string p prs probs) = Inr probs'"
    by blast
  show ?case
  proof (cases "ca \<noteq> cb")
    case False
    with step have "add_couplers string p prs probs = Inr probs'" by simp
    from Cons.IH[OF this] Cons.prems(2,3) show ?thesis by auto
  next
    case True
    with step obtain v where v: "map_of probs (Coupler label) = Some v"
      and rest: "add_couplers string p prs (AList.update (Coupler label) (v + p) probs) = Inr probs'"
      by (auto simp: bind_err_Inr dict_get_Inr)
    from Cons.IH[OF rest] Cons.prems(2,3)
    have ih: "lookup0 (AList.update (Coupler label) (v + p) probs) k \<le> lookup0 probs' k"
      "lookup0 probs' k \<le> lookup0 (AList.update (Coupler label) (v + p) probs) k + p"
      "k \<notin> Coupler ` fst ` set prs \<Longrightarrow> lookup0 probs' k = lookup0 (AList.update (Coupler label) (v + p) probs) k"
      by auto
    have vn: "lookup0 probs (Coupler label) = v" using v by (simp add: lookup0_def)
    show ?thesis
    proof (cases "k = Coupler label")
      case True
      with Cons.prems(2) lp have "k \<notin> Coupler ` fst ` set prs" by force
      with ih(3) True vn Cons.prems(3) lp show ?thesis by (simp add: lookup0_update)
    next
      case False
      with ih show ?thesis by (auto simp: lookup0_update)
    qed
  qed
qed

lemma add_strings_distinct:
  "add_strings L stats probs = Inr probs' \<Longrightarrow> distinct (map fst probs)
     \<Longrightarrow> distinct (map fst probs')"
proof (induction stats arbitrary: probs)
  case Nil
  then show ?case by simp
next
  case (Cons sp stats)
  obtain s p where sp: "sp = (s, p)" by (cases sp)
  from Cons.prems(1) sp obtain probs1 probs2 where
    a: "add_elements s p (py_range (num L)) probs = Inr probs1"
    and b: "add_couplers s p (pairs L) probs1 = Inr probs2"
    and c: "add_strings L stats probs2 = Inr probs'"
    by (auto simp: bind_err_Inr)
  from add_couplers_distinct[OF b add_elements_distinct[OF a Cons.prems(2)]]
  show ?case by (rule Cons.IH[OF c])
qed

lemma add_strings_bounds:
  "add_strings L stats probs = Inr probs' \<Longrightarrow> distinct (map fst (pairs L))
     \<Longrightarrow> \<forall>q \<in> set stats. 0 \<le> snd q
     \<Longrightarrow> lookup0 probs k \<le> lookup0 probs' k
         \<and> lookup0 probs' k \<le> lookup0 probs k + sum_list (map snd stats)"
proof (induction stats arbitrary: probs)
  case Nil
  then show ?case by simp
next
  case (Cons sp stats)
  obtain s p where sp: "sp = (s, p)" by (cases sp)
  from Cons.prems(1) sp obtain probs1 probs2 where
    a: "add_elements s p (py_range (num L)) probs = Inr probs1"
    and b: "add_couplers s p (pairs L) probs1 = Inr probs2"
    and c: "add_strings L stats probs2 = Inr probs'"
    by (auto simp: bind_err_Inr)
  have p: "0 \<le> p" using Cons.prems(3) sp by simp
  note ea = add_elements_bounds[OF a distinct_py_range p, of k]
  note eb = add_couplers_bounds[OF b Cons.prems(2) p, of k]
  have one: "lookup0 probs k \<le> lookup0 probs2 k \<and> lookup0 probs2 k \<le> lookup0 probs k + p"
  proof (cases k)
    case (Element n)
    then have "k \<notin> Coupler ` fst ` set (pairs L)" by auto
    with ea eb show ?thesis by simp
  next
    case (Coupler l)
    then have "k \<notin> Element ` set (py_range (num L))" by auto
    with ea eb show ?thesis by simp
  qed
  from Cons.IH[OF c Cons.prems(2)] Cons.prems(3)
  have "lookup0 probs2 k \<le> lookup0 probs' k
         \<and> lookup0 probs' k \<le> lookup0 probs2 k + sum_list (map snd stats)" by simp
  with one sp show ?case by simp
qed

lemma zero_probs_aux:
  "distinct (map fst acc) \<Longrightarrow> (\<forall>k. lookup0 acc k = 0)
    \<Longrightarrow> distinct (map fst (foldl (\<lambda>probs (n, xy). AList.update n 0 probs) acc ps))
      \<and> (\<forall>k. lookup0 (foldl (\<lambda>probs (n, xy). AList.update n (0::real) probs) acc ps) k = 0)"
proof (induction ps arbitrary: acc)
  case Nil
  then show ?case by simp
next
  case (Cons a ps)
  obtain n xy where a: "a = (n, xy)" by (cases a)
  have "distinct (map fst (AList.update n (0::real) acc))"
    using Cons.prems(1) by (simp add: distinct_update)
  moreover have "\<forall>k. lookup0 (AList.update n (0::real) acc) k = 0"
    using Cons.prems(2) by (simp add: lookup0_update)
  ultimately show ?case using Cons.IH a by simp
qed

lemma zero_probs_props:
  "distinct (map fst (zero_probs L))" "lookup0 (zero_probs L) k = 0"
  using zero_probs_aux[of "[]" "pos L"] by (simp_all add: zero_probs_def lookup0_def)

lemma foldl_counts: "foldl (\<lambda>Z (string, c). Z + c) z raw = z + sum_list (map snd raw)"
  by (induction raw arbitrary: z) (auto simp: add.assoc)

lemma map_err_normalise:
  "map_err (\<lambda>(string, c). if Z = 0 then Inl ZeroDivisionError
           else Inr (string, real_of_int c / real_of_int Z)) raw = Inr stats
   \<Longrightarrow> raw \<noteq> [] \<longrightarrow> Z \<noteq> 0"
  by (cases raw) (auto simp: bind_err_Inr)

lemma map_err_normalise2:
  "Z \<noteq> 0 \<Longrightarrow> map_err (\<lambda>(string, c). if Z = 0 then Inl ZeroDivisionError
           else Inr (string, real_of_int c / real_of_int Z)) raw
     = Inr (map (\<lambda>(string, c). (string, real_of_int c / real_of_int Z)) raw)"
  by (induction raw) (auto simp: bind_err_def)

lemma normalise_Inr:
  assumes "normalise raw = Inr stats" "raw \<noteq> []"
  shows "sum_list (map snd raw) \<noteq> 0"
    and "stats = map (\<lambda>(string, c). (string, real_of_int c / real_of_int (sum_list (map snd raw)))) raw"
proof -
  from assms show z: "sum_list (map snd raw) \<noteq> 0"
    using map_err_normalise[of "sum_list (map snd raw)" raw stats]
    by (simp add: normalise_def foldl_counts Let_def)
  from assms(1) map_err_normalise2[OF z, of raw]
  show "stats = map (\<lambda>(string, c). (string, real_of_int c / real_of_int (sum_list (map snd raw)))) raw"
    by (simp add: normalise_def foldl_counts Let_def)
qed

lemma sum_list_scaled:
  "sum_list (map snd (map (\<lambda>(string, c). (string, real_of_int c / z)) raw))
     = real_of_int (sum_list (map snd raw)) / z"
  by (induction raw) (auto simp: add_divide_distrib)



text \<open>\<^verbatim>\<open>calculate_probs\<close> returns when the total count is not 0, every outcome string has at
  least \<open>num\<close> characters, every coupler has two indices in \<open>[0, num)\<close>, and every element
  and coupler has a position.\<close>

lemma keys_zero_probs_aux:
  "fst ` set (foldl (\<lambda>probs (n, xy). AList.update n (0::real) probs) acc ps)
     = fst ` set acc \<union> fst ` set ps"
proof (induction ps arbitrary: acc)
  case Nil
  then show ?case by simp
next
  case (Cons a ps)
  then show ?case by (cases a) (auto simp: dom_update)
qed

lemma keys_zero_probs: "fst ` set (zero_probs L) = fst ` set (pos L)"
  by (simp add: zero_probs_def keys_zero_probs_aux)

lemma add_elements_total:
  "\<forall>n \<in> set ns. 0 \<le> n \<and> n < int (length string) \<and> Element n \<in> fst ` set probs \<Longrightarrow>
     \<exists>probs'. add_elements string p ns probs = Inr probs' \<and> fst ` set probs' = fst ` set probs"
proof (induction ns arbitrary: probs)
  case Nil
  then show ?case by simp
next
  case (Cons n ns)
  from Cons.prems obtain c where c: "py_index string (- n - 1) = Inr c"
    using py_index_from_end[of n string] by auto
  from Cons.prems obtain v where v: "dict_get probs (Element n) = Inr v"
    using key_in_dict[of "Element n" probs] by auto
  have keys: "fst ` set (AList.update (Element n) (v + p) probs) = fst ` set probs"
    using Cons.prems by (auto simp: dom_update)
  show ?case
  proof (cases "c = CHR ''1''")
    case True
    from Cons.IH[of "AList.update (Element n) (v + p) probs"] Cons.prems keys
    show ?thesis using c v True by auto
  next
    case False
    from Cons.IH[of probs] Cons.prems show ?thesis using c False by auto
  qed
qed

lemma add_couplers_total:
  "\<forall>lp \<in> set prs. \<exists>a b rest. snd lp = a # b # rest \<and> 0 \<le> a \<and> a < int (length string)
        \<and> 0 \<le> b \<and> b < int (length string) \<and> Coupler (fst lp) \<in> fst ` set probs \<Longrightarrow>
     \<exists>probs'. add_couplers string p prs probs = Inr probs' \<and> fst ` set probs' = fst ` set probs"
proof (induction prs arbitrary: probs)
  case Nil
  then show ?case by simp
next
  case (Cons lp prs)
  obtain label pair where lp: "lp = (label, pair)" by (cases lp)
  from Cons.prems lp obtain a b rest where pair: "pair = a # b # rest"
    and a: "0 \<le> a" "a < int (length string)" and b: "0 \<le> b" "b < int (length string)"
    and k: "Coupler label \<in> fst ` set probs"
    by auto
  from a obtain ca where ca: "py_index string (- a - 1) = Inr ca"
    using py_index_from_end[of a string] by auto
  from b obtain cb where cb: "py_index string (- b - 1) = Inr cb"
    using py_index_from_end[of b string] by auto
  from k obtain v where v: "dict_get probs (Coupler label) = Inr v"
    using key_in_dict[of "Coupler label" probs] by auto
  have keys: "fst ` set (AList.update (Coupler label) (v + p) probs) = fst ` set probs"
    using k by (auto simp: dom_update)
  have step: "add_couplers string p (lp # prs) probs =
      (if ca \<noteq> cb then add_couplers string p prs (AList.update (Coupler label) (v + p) probs)
       else add_couplers string p prs probs)"
    using lp pair ca cb v by (simp add: py_index_0 py_index_1)
  show ?case
  proof (cases "ca \<noteq> cb")
    case True
    from Cons.IH[of "AList.update (Coupler label) (v + p) probs"] Cons.prems keys
    show ?thesis unfolding step using True by auto
  next
    case False
    from Cons.IH[of probs] Cons.prems show ?thesis unfolding step using False by auto
  qed
qed

lemma add_strings_total:
  assumes "\<forall>sp \<in> set stats. num L \<le> int (length (fst sp))"
    and "\<forall>lp \<in> set (pairs L). \<exists>a b rest. snd lp = a # b # rest \<and> 0 \<le> a \<and> a < num L
            \<and> 0 \<le> b \<and> b < num L \<and> Coupler (fst lp) \<in> fst ` set probs"
    and "\<forall>n. 0 \<le> n \<and> n < num L \<longrightarrow> Element n \<in> fst ` set probs"
  shows "\<exists>probs'. add_strings L stats probs = Inr probs'"
  using assms
proof (induction stats arbitrary: probs)
  case Nil
  then show ?case by simp
next
  case (Cons sp stats)
  obtain s p where sp: "sp = (s, p)" by (cases sp)
  have len: "num L \<le> int (length s)" using Cons.prems(1) sp by simp
  have "\<forall>n \<in> set (py_range (num L)). 0 \<le> n \<and> n < int (length s) \<and> Element n \<in> fst ` set probs"
    using Cons.prems(3) len by (auto simp: py_range_def)
  from add_elements_total[OF this, of p] obtain probs1
    where e: "add_elements s p (py_range (num L)) probs = Inr probs1"
      and k1: "fst ` set probs1 = fst ` set probs" by blast
  have "\<forall>lp \<in> set (pairs L). \<exists>a b rest. snd lp = a # b # rest \<and> 0 \<le> a \<and> a < int (length s)
        \<and> 0 \<le> b \<and> b < int (length s) \<and> Coupler (fst lp) \<in> fst ` set probs1"
  proof
    fix lp assume "lp \<in> set (pairs L)"
    with Cons.prems(2) obtain a b rest where "snd lp = a # b # rest" "0 \<le> a" "a < num L"
      "0 \<le> b" "b < num L" "Coupler (fst lp) \<in> fst ` set probs" by blast
    with len k1 show "\<exists>a b rest. snd lp = a # b # rest \<and> 0 \<le> a \<and> a < int (length s)
        \<and> 0 \<le> b \<and> b < int (length s) \<and> Coupler (fst lp) \<in> fst ` set probs1"
      by (intro exI[of _ a] exI[of _ b] exI[of _ rest]) auto
  qed
  from add_couplers_total[OF this, of p] obtain probs2
    where c: "add_couplers s p (pairs L) probs1 = Inr probs2"
      and k2: "fst ` set probs2 = fst ` set probs1" by blast
  have "\<exists>probs'. add_strings L stats probs2 = Inr probs'"
    using Cons.prems k1 k2 by (intro Cons.IH) auto
  with e c sp show ?case by auto
qed

lemma calculate_probs_returns:
  assumes "sum_list (map snd raw_stats) \<noteq> 0"
    and "\<forall>sc \<in> set raw_stats. num L \<le> int (length (fst sc))"
    and "\<forall>lp \<in> set (pairs L). \<exists>a b rest. snd lp = a # b # rest \<and> 0 \<le> a \<and> a < num L
            \<and> 0 \<le> b \<and> b < num L \<and> Coupler (fst lp) \<in> fst ` set (pos L)"
    and "\<forall>n. 0 \<le> n \<and> n < num L \<longrightarrow> Element n \<in> fst ` set (pos L)"
  shows "\<exists>probs. calculate_probs L raw_stats = Inr probs"
proof -
  define Z where "Z = sum_list (map snd raw_stats)"
  have n: "normalise raw_stats
      = Inr (map (\<lambda>(string, c). (string, real_of_int c / real_of_int Z)) raw_stats)"
    using map_err_normalise2[of Z raw_stats] assms(1)
    by (simp add: normalise_def foldl_counts Z_def Let_def)
  have "\<forall>sp \<in> set (map (\<lambda>(string, c). (string, real_of_int c / real_of_int Z)) raw_stats).
          num L \<le> int (length (fst sp))"
    using assms(2) by auto
  from add_strings_total[OF this, of "zero_probs L"] assms(3,4) n show ?thesis
    by (simp add: calculate_probs_def keys_zero_probs)
qed

end
